theory Spec2Isabelle
  imports Complex_Main "HOL-Library.Sublist" "HOL-Library.Char_ord" "HOL-Library.List_Lexorder"
begin

section \<open>Session schema (src/session/schema.ts)\<close>

text \<open>
  Times are JavaScript numbers holding milliseconds; the tracker only subtracts and
  compares them, so they are modelled as \<open>int\<close>. Byte counts and indices are \<open>nat\<close>.
  An optional field (\<open>t1Ms?: number\<close>) is an \<open>option\<close>; \<open>undefined\<close> is \<open>None\<close>.
  Record fields live in one name space, so the fields of \<open>Interaction\<close> carry the prefix
  \<open>i_\<close> and those of \<open>ActiveInteraction\<close> the prefix \<open>it_\<close> where the names would clash.
\<close>

datatype TurnDetectionMode = Enter | Hotkey

datatype Kind = Keystroke | Turn

datatype EndReason = BurstIdle | Timeout | SessionEnd | Overlap

record TurnEvent =
  index :: nat
  tMs :: int
  source :: TurnDetectionMode

record Interaction =
  i_id :: nat
  i_kind :: Kind
  i_t0Ms :: int
  t1Ms :: "int option"
  t2Ms :: "int option"
  i_inputBytes :: nat
  i_outputBytes :: nat
  i_turnIndex :: "nat option"
  endReason :: EndReason

section \<open>Interaction tracker (src/pty/interactionTracker.ts)\<close>

subsection \<open>State\<close>

text \<open>
  An \<open>ActiveInteraction\<close> is a mutable object that is reachable both from the tracker's
  two slots and from the closures of its timers. The objects therefore live in a store
  (\<open>heap\<close>); a slot and a timer callback hold the address of the object. The address of
  an object is the value \<open>nextId\<close> had when \<open>startInteraction\<close> allocated it.
  The fields \<open>idleTimer\<close> and \<open>noOutputTimeout\<close> hold timer handles.
\<close>

record ActiveInteraction =
  it_id :: nat
  it_kind :: Kind
  it_t0Ms :: int
  firstOutputAtMs :: "int option"
  lastOutputAtMs :: "int option"
  it_inputBytes :: nat
  it_outputBytes :: nat
  it_turnIndex :: "nat option"
  idleTimer :: "nat option"
  noOutputTimeout :: "nat option"

text \<open>The options are finite numbers that are not negative, as the command line checks.\<close>

record InteractionTrackerOptions =
  burstIdleMs :: rat
  interactionTimeoutMs :: rat
  turnDetection :: TurnDetectionMode

text \<open>The two closures that \<open>setTimeout\<close> is given, each capturing the object \<open>it\<close>.\<close>

datatype callback = NoOutputCb nat | IdleCb nat

record timer =
  handle :: nat
  due :: nat
  cb :: callback

text \<open>The calls of \<open>onTurn\<close> and \<open>onInteraction\<close>, in the order they are made.\<close>

datatype emit = OnTurn TurnEvent | OnInteraction Interaction

record tracker =
  nextId :: nat
  turnIndex :: nat
  activeKeystroke :: "nat option"
  activeTurn :: "nat option"
  heap :: "nat \<Rightarrow> ActiveInteraction option"
  timers :: "timer list"
  nextHandle :: nat
  clock :: nat
  emitted :: "emit list"

definition init :: tracker where
  "init = \<lparr> nextId = 1, turnIndex = 0, activeKeystroke = None, activeTurn = None,
            heap = (\<lambda>_. None), timers = [], nextHandle = 0, clock = 0, emitted = [] \<rparr>"

subsection \<open>Timers of the event loop\<close>

text \<open>
  The time of the event loop (\<open>clock\<close>) is in whole milliseconds. The delay that Node's
  \<open>setTimeout\<close> gives a timer: a delay that is not between 1 and \<open>2^31 - 1\<close> is set to 1,
  and a fraction of a millisecond is cut off.
\<close>

definition timerDelay :: "rat \<Rightarrow> nat" where
  "timerDelay d = (if 1 \<le> d \<and> d \<le> 2147483647 then nat \<lfloor>d\<rfloor> else 1)"

text \<open>
  \<open>setTimeout cb d\<close> registers a pending timer that is due \<open>timerDelay d\<close> milliseconds
  after the current time of the event loop and returns its handle; \<open>clearTimeout\<close> removes
  the pending timer with that handle, and does nothing when there is none.
  The list of pending timers is kept in the order of registration.
\<close>

definition setTimeout :: "callback \<Rightarrow> rat \<Rightarrow> tracker \<Rightarrow> nat \<times> tracker" where
  "setTimeout c d s =
     (nextHandle s,
      s\<lparr> timers := timers s @ [\<lparr> handle = nextHandle s, due = clock s + timerDelay d, cb = c \<rparr>],
         nextHandle := nextHandle s + 1 \<rparr>)"

definition clearTimeout :: "nat \<Rightarrow> tracker \<Rightarrow> tracker" where
  "clearTimeout h s = s\<lparr> timers := filter (\<lambda>t. handle t \<noteq> h) (timers s) \<rparr>"

text \<open>\<open>if (x) clearTimeout(x)\<close> for an optional handle.\<close>

definition clearIfSet :: "nat option \<Rightarrow> tracker \<Rightarrow> tracker" where
  "clearIfSet x s = (case x of None \<Rightarrow> s | Some h \<Rightarrow> clearTimeout h s)"

subsection \<open>Operations\<close>

definition bufferContainsEnter :: "string \<Rightarrow> bool" where
  "bufferContainsEnter str \<longleftrightarrow> CHR 0x0A \<in> set str \<or> CHR 0x0D \<in> set str"

text \<open>Assignment to a field of the object at address \<open>r\<close>.\<close>

definition modify :: "nat \<Rightarrow> (ActiveInteraction \<Rightarrow> ActiveInteraction) \<Rightarrow> tracker \<Rightarrow> tracker" where
  "modify r f s = (case heap s r of None \<Rightarrow> s | Some it \<Rightarrow> s\<lparr> heap := (heap s)(r \<mapsto> f it) \<rparr>)"

definition mkInteraction :: "ActiveInteraction \<Rightarrow> EndReason \<Rightarrow> Interaction" where
  "mkInteraction it reason =
     \<lparr> i_id = it_id it, i_kind = it_kind it, i_t0Ms = it_t0Ms it,
       t1Ms = (case firstOutputAtMs it of None \<Rightarrow> None | Some t \<Rightarrow> Some (t - it_t0Ms it)),
       t2Ms = (case lastOutputAtMs it of None \<Rightarrow> None | Some t \<Rightarrow> Some (t - it_t0Ms it)),
       i_inputBytes = it_inputBytes it, i_outputBytes = it_outputBytes it,
       i_turnIndex = it_turnIndex it, endReason = reason \<rparr>"

text \<open>\<open>this.activeKeystroke?.id === it.id\<close>: the slot is set and its object has this id.\<close>

definition slotHasId :: "tracker \<Rightarrow> nat option \<Rightarrow> nat \<Rightarrow> bool" where
  "slotHasId s slot i =
     (case slot of None \<Rightarrow> False
      | Some r \<Rightarrow> (case heap s r of None \<Rightarrow> False | Some k \<Rightarrow> it_id k = i))"

definition finalize :: "nat \<Rightarrow> EndReason \<Rightarrow> tracker \<Rightarrow> tracker" where
  "finalize r reason s =
     (case heap s r of
        None \<Rightarrow> s
      | Some it \<Rightarrow>
          let s1 = clearIfSet (idleTimer it) s;
              s2 = clearIfSet (noOutputTimeout it) s1;
              interaction = mkInteraction it reason;
              s3 = (if slotHasId s2 (activeKeystroke s2) (it_id it)
                    then s2\<lparr> activeKeystroke := None \<rparr> else s2);
              s4 = (if slotHasId s3 (activeTurn s3) (it_id it)
                    then s3\<lparr> activeTurn := None \<rparr> else s3)
          in s4\<lparr> emitted := emitted s4 @ [OnInteraction interaction] \<rparr>)"

definition startInteraction ::
  "InteractionTrackerOptions \<Rightarrow> Kind \<Rightarrow> int \<Rightarrow> nat option \<Rightarrow> tracker \<Rightarrow> nat \<times> tracker" where
  "startInteraction opts k t0 extra s =
     (let r = nextId s;
          it = \<lparr> it_id = r, it_kind = k, it_t0Ms = t0,
                 firstOutputAtMs = None, lastOutputAtMs = None,
                 it_inputBytes = 0, it_outputBytes = 0, it_turnIndex = extra,
                 idleTimer = None, noOutputTimeout = None \<rparr>;
          s1 = s\<lparr> nextId := nextId s + 1, heap := (heap s)(r \<mapsto> it) \<rparr>;
          (h, s2) = setTimeout (NoOutputCb r) (interactionTimeoutMs opts) s1
      in (r, modify r (\<lambda>it. it\<lparr> noOutputTimeout := Some h \<rparr>) s2))"

definition observeOutput ::
  "InteractionTrackerOptions \<Rightarrow> nat \<Rightarrow> int \<Rightarrow> nat \<Rightarrow> tracker \<Rightarrow> tracker" where
  "observeOutput opts r nowMs bytes s =
     (case heap s r of
        None \<Rightarrow> s
      | Some it \<Rightarrow>
          let s1 = (if firstOutputAtMs it = None
                    then modify r (\<lambda>it. it\<lparr> firstOutputAtMs := Some nowMs, noOutputTimeout := None \<rparr>)
                           (clearIfSet (noOutputTimeout it) s)
                    else s);
              s2 = modify r (\<lambda>it. it\<lparr> lastOutputAtMs := Some nowMs,
                                        it_outputBytes := it_outputBytes it + bytes \<rparr>) s1;
              s3 = clearIfSet (idleTimer it) s2;
              (h, s4) = setTimeout (IdleCb r) (burstIdleMs opts) s3
          in modify r (\<lambda>it. it\<lparr> idleTimer := Some h \<rparr>) s4)"

definition beginTurn ::
  "InteractionTrackerOptions \<Rightarrow> TurnDetectionMode \<Rightarrow> int \<Rightarrow> tracker \<Rightarrow> tracker" where
  "beginTurn opts src now s =
     (let s1 = s\<lparr> turnIndex := turnIndex s + 1 \<rparr>;
          s2 = s1\<lparr> emitted := emitted s1 @
                      [OnTurn \<lparr> index = turnIndex s1, tMs = now, source = src \<rparr>] \<rparr>;
          s3 = (case activeTurn s2 of
                  None \<Rightarrow> s2
                | Some r \<Rightarrow> (finalize r Overlap s2)\<lparr> activeTurn := None \<rparr>);
          (r, s4) = startInteraction opts Turn now (Some (turnIndex s3)) s3
      in s4\<lparr> activeTurn := Some r \<rparr>)"

definition addInput :: "nat option \<Rightarrow> nat \<Rightarrow> tracker \<Rightarrow> tracker" where
  "addInput slot byteLen s =
     (case slot of None \<Rightarrow> s
      | Some r \<Rightarrow> modify r (\<lambda>it. it\<lparr> it_inputBytes := it_inputBytes it + byteLen \<rparr>) s)"

text \<open>
  \<open>handleInput\<close> in two parts: the keystroke interaction (started if there is none, then
  credited with the bytes), and the detection of a turn.
\<close>

definition keystrokeInput ::
  "InteractionTrackerOptions \<Rightarrow> int \<Rightarrow> nat \<Rightarrow> tracker \<Rightarrow> tracker" where
  "keystrokeInput opts now byteLen s =
     (let s1 = (if activeKeystroke s = None
                then (let (r, s') = startInteraction opts Keystroke now None s
                      in s'\<lparr> activeKeystroke := Some r \<rparr>)
                else s)
      in addInput (activeKeystroke s1) byteLen s1)"

definition handleInput ::
  "InteractionTrackerOptions \<Rightarrow> int \<Rightarrow> string \<Rightarrow> nat \<Rightarrow> tracker \<Rightarrow> tracker" where
  "handleInput opts now data byteLen s =
     (let s2 = keystrokeInput opts now byteLen s
      in if turnDetection opts = Enter \<and> bufferContainsEnter data
         then (let s3 = beginTurn opts Enter now s2 in addInput (activeTurn s3) byteLen s3)
         else if activeTurn s2 \<noteq> None then addInput (activeTurn s2) byteLen s2
         else s2)"

definition handleOutput :: "InteractionTrackerOptions \<Rightarrow> int \<Rightarrow> nat \<Rightarrow> tracker \<Rightarrow> tracker" where
  "handleOutput opts now byteLen s =
     (let s1 = (case activeKeystroke s of None \<Rightarrow> s
                | Some r \<Rightarrow> observeOutput opts r now byteLen s)
      in (case activeTurn s1 of None \<Rightarrow> s1
          | Some r \<Rightarrow> observeOutput opts r now byteLen s1))"

definition endSession :: "tracker \<Rightarrow> tracker" where
  "endSession s =
     (let s1 = (case activeKeystroke s of None \<Rightarrow> s | Some r \<Rightarrow> finalize r SessionEnd s);
          s2 = (case activeTurn s1 of None \<Rightarrow> s1 | Some r \<Rightarrow> finalize r SessionEnd s1)
      in s2\<lparr> activeKeystroke := None, activeTurn := None \<rparr>)"

definition markTurn ::
  "InteractionTrackerOptions \<Rightarrow> TurnDetectionMode \<Rightarrow> int \<Rightarrow> tracker \<Rightarrow> tracker" where
  "markTurn opts src now s = beginTurn opts src now s"

definition getCurrentTurnIndex :: "tracker \<Rightarrow> nat" where
  "getCurrentTurnIndex s = turnIndex s"

subsection \<open>Timer callbacks and the event loop\<close>

text \<open>Running the closure of a timer that has come due.\<close>

definition fire :: "callback \<Rightarrow> tracker \<Rightarrow> tracker" where
  "fire c s =
     (case c of
        NoOutputCb r \<Rightarrow>
          (case heap s r of
             None \<Rightarrow> s
           | Some it \<Rightarrow> if firstOutputAtMs it = None then finalize r Timeout s else s)
      | IdleCb r \<Rightarrow> finalize r BurstIdle s)"

text \<open>
  The pending timer that is due first; among timers due at the same time the one
  registered first.
\<close>

fun earliest :: "timer list \<Rightarrow> timer option" where
  "earliest [] = None"
| "earliest (t # ts) =
     (case earliest ts of
        None \<Rightarrow> Some t
      | Some u \<Rightarrow> if due t \<le> due u then Some t else Some u)"

lemma earliest_in: "earliest ts = Some t \<Longrightarrow> t \<in> set ts"
  by (induction ts arbitrary: t) (auto split: option.splits if_splits)

lemma length_timers_clearIfSet: "length (timers (clearIfSet x s)) \<le> length (timers s)"
  by (simp add: clearIfSet_def clearTimeout_def split: option.splits)

lemma length_timers_finalize: "length (timers (finalize r reason s)) \<le> length (timers s)"
  by (auto simp: finalize_def Let_def split: option.splits
           intro: order_trans [OF length_timers_clearIfSet length_timers_clearIfSet])

lemma length_timers_fire: "length (timers (fire c s)) \<le> length (timers s)"
  by (auto simp: fire_def length_timers_finalize split: callback.splits option.splits)

text \<open>
  The event loop running until its clock reads \<open>target\<close>: as long as a pending timer is
  due by then, the one due first is taken off the list and its closure is run.
\<close>

function run_due :: "nat \<Rightarrow> tracker \<Rightarrow> tracker" where
  "run_due target s =
     (case earliest (filter (\<lambda>t. due t \<le> target) (timers s)) of
        None \<Rightarrow> s\<lparr> clock := max (clock s) target \<rparr>
      | Some t \<Rightarrow>
          run_due target
            (fire (cb t) (s\<lparr> clock := max (clock s) (due t),
                             timers := filter (\<lambda>u. handle u \<noteq> handle t) (timers s) \<rparr>)))"
  by pat_completeness auto
termination
proof (relation "measure (\<lambda>(target, s). length (timers s))")
  show "wf (measure (\<lambda>(target, s). length (timers s)))" by simp
next
  fix target :: nat and s :: tracker and t :: timer
  assume "earliest (filter (\<lambda>t. due t \<le> target) (timers s)) = Some t"
  then have "t \<in> set (timers s)"
    using earliest_in by fastforce
  then have "length (filter (\<lambda>u. handle u \<noteq> handle t) (timers s)) < length (timers s)"
    by (intro length_filter_less) auto
  moreover have "length (timers (fire (cb t) (s\<lparr> clock := max (clock s) (due t),
                   timers := filter (\<lambda>u. handle u \<noteq> handle t) (timers s) \<rparr>)))
                 \<le> length (filter (\<lambda>u. handle u \<noteq> handle t) (timers s))"
    using length_timers_fire [of "cb t" "s\<lparr> clock := max (clock s) (due t),
                   timers := filter (\<lambda>u. handle u \<noteq> handle t) (timers s) \<rparr>"] by simp
  ultimately show "((target, fire (cb t) (s\<lparr> clock := max (clock s) (due t),
                   timers := filter (\<lambda>u. handle u \<noteq> handle t) (timers s) \<rparr>)), (target, s))
                   \<in> measure (\<lambda>(target, s). length (timers s))"
    by simp
qed

declare run_due.simps [simp del]

subsection \<open>Events and runs\<close>

text \<open>
  What happens to a tracker, one event at a time. The first three events are the calls
  of the public methods; each carries the value that its single call of \<open>nowMs()\<close>
  returns. \<open>TimerFires h\<close> is the runtime running the closure of the pending timer \<open>h\<close>
  (nothing happens when no such timer is pending). \<open>AdvanceTimers d\<close> lets \<open>d\<close>
  milliseconds pass on the event loop with no other event in between, so that every
  timer coming due is run, in the order in which they are due.
\<close>

datatype event =
    HandleInput int string nat
  | HandleOutput int nat
  | MarkTurn int TurnDetectionMode
  | EndSession
  | TimerFires nat
  | AdvanceTimers nat

definition timerFires :: "nat \<Rightarrow> tracker \<Rightarrow> tracker" where
  "timerFires h s =
     (case find (\<lambda>t. handle t = h) (timers s) of
        None \<Rightarrow> s
      | Some t \<Rightarrow> fire (cb t) (s\<lparr> timers := filter (\<lambda>u. handle u \<noteq> h) (timers s) \<rparr>))"

fun step :: "InteractionTrackerOptions \<Rightarrow> event \<Rightarrow> tracker \<Rightarrow> tracker" where
  "step opts (HandleInput now data byteLen) s = handleInput opts now data byteLen s"
| "step opts (HandleOutput now byteLen) s = handleOutput opts now byteLen s"
| "step opts (MarkTurn now src) s = markTurn opts src now s"
| "step opts EndSession s = endSession s"
| "step opts (TimerFires h) s = timerFires h s"
| "step opts (AdvanceTimers d) s = run_due (clock s + d) s"

definition run :: "InteractionTrackerOptions \<Rightarrow> event list \<Rightarrow> tracker \<Rightarrow> tracker" where
  "run opts es s = fold (step opts) es s"

section \<open>Markers (src/session/markers.ts)\<close>

subsection \<open>Strings\<close>

text \<open>
  A string is the list of the bytes of its UTF-8 form, the form in which the program
  reads it from the command line, the terminal and the files, and writes it. A character
  below U+0080 is one byte, one below U+0800 two bytes, one below U+10000 three bytes;
  a character from U+10000 on is four bytes, and two UTF-16 code units in JavaScript.

  \<open>trim\<close> is \<open>String.prototype.trim\<close>: it removes from both ends the white space and
  the line terminators of ECMAScript, which are U+0009 to U+000D, U+0020, U+00A0, U+1680,
  U+2000 to U+200A, U+2028, U+2029, U+202F, U+205F, U+3000 and U+FEFF. \<open>whiteSpace\<close>
  lists their UTF-8 forms.
\<close>

definition whiteSpace :: "string list" where
  "whiteSpace =
     map (\<lambda>c. [c]) [CHR 0x09, CHR 0x0A, CHR 0x0B, CHR 0x0C, CHR 0x0D, CHR 0x20]
     @ [[CHR 0xC2, CHR 0xA0], [CHR 0xE1, CHR 0x9A, CHR 0x80]]
     @ map (\<lambda>c. [CHR 0xE2, CHR 0x80, c])
         [CHR 0x80, CHR 0x81, CHR 0x82, CHR 0x83, CHR 0x84, CHR 0x85, CHR 0x86, CHR 0x87,
          CHR 0x88, CHR 0x89, CHR 0x8A, CHR 0xA8, CHR 0xA9, CHR 0xAF]
     @ [[CHR 0xE2, CHR 0x81, CHR 0x9F], [CHR 0xE3, CHR 0x80, CHR 0x80],
        [CHR 0xEF, CHR 0xBB, CHR 0xBF]]"

text \<open>The length of the first of the strings \<open>ws\<close> that \<open>str\<close> starts with; 0 if there is none.\<close>

definition spaceAt :: "string list \<Rightarrow> string \<Rightarrow> nat" where
  "spaceAt ws str = (case find (\<lambda>w. prefix w str) ws of None \<Rightarrow> 0 | Some w \<Rightarrow> length w)"

lemma spaceAt_le: "spaceAt ws str \<le> length str"
  by (auto simp: spaceAt_def find_Some_iff prefix_def split: option.splits)

function strip :: "string list \<Rightarrow> string \<Rightarrow> string" where
  "strip ws str = (if spaceAt ws str = 0 then str else strip ws (drop (spaceAt ws str) str))"
  by pat_completeness auto
termination
proof (relation "measure (\<lambda>(ws, str). length str)")
  show "wf (measure (\<lambda>(ws, str). length str))" by simp
next
  fix ws :: "string list" and str :: string
  assume "spaceAt ws str \<noteq> 0"
  moreover have "spaceAt ws str \<le> length str" by (rule spaceAt_le)
  ultimately show "((ws, drop (spaceAt ws str) str), (ws, str)) \<in> measure (\<lambda>(ws, str). length str)"
    by simp
qed

declare strip.simps [simp del]

definition trim :: "string \<Rightarrow> string" where
  "trim str = rev (strip (map rev whiteSpace) (rev (strip whiteSpace str)))"

text \<open>
  The number of bytes of the character whose first byte is \<open>c\<close>. \<open>sliceUnits n\<close> is
  \<open>str.slice(0, n)\<close>, which counts UTF-16 code units: a character of four bytes counts
  for two, and a cut between the two leaves a lone surrogate, whose UTF-8 form is that of
  U+FFFD.
\<close>

definition charBytes :: "char \<Rightarrow> nat" where
  "charBytes c = (let n = (of_char c :: nat)
                  in if n < 0x80 then 1 else if n < 0xE0 then 2 else if n < 0xF0 then 3 else 4)"

lemma charBytes_pos: "0 < charBytes c"
  by (simp add: charBytes_def Let_def)

function sliceUnits :: "nat \<Rightarrow> string \<Rightarrow> string" where
  "sliceUnits n [] = []"
| "sliceUnits n (c # cs) =
     (if n = 0 then []
      else if charBytes c < 4
      then take (charBytes c) (c # cs) @ sliceUnits (n - 1) (drop (charBytes c) (c # cs))
      else if n = 1 then [CHR 0xEF, CHR 0xBF, CHR 0xBD]
      else take 4 (c # cs) @ sliceUnits (n - 2) (drop 4 (c # cs)))"
  by pat_completeness auto
termination
  using charBytes_pos by (relation "measure (\<lambda>(n, str). length str)") auto



subsection \<open>Marker lines\<close>

text \<open>
  The hash function \<open>sha256Hex\<close> (src/util/hash.ts) and the time stamp
  \<open>new Date().toISOString()\<close> are parameters. An optional number that is absent or not
  finite is \<open>None\<close>; an absent \<open>storePlaintextLabel\<close> is \<open>False\<close>.
\<close>

record AppendMarkerOptions =
  markersPath :: string
  o_tMs :: "int option"
  o_label :: "string option"
  storePlaintextLabel :: bool

record MarkerLine =
  tIso :: string
  l_tMs :: "int option"
  l_label :: "string option"
  l_labelSha256 :: "string option"

record MarkerEvent =
  m_tMs :: int
  label :: "string option"
  labelSha256 :: "string option"

text \<open>The object that \<open>appendMarker\<close> builds and writes as one line of markers.jsonl.\<close>

definition markerRecord :: "(string \<Rightarrow> string) \<Rightarrow> string \<Rightarrow> AppendMarkerOptions \<Rightarrow> MarkerLine" where
  "markerRecord sha256Hex now opts =
     (let lbl = map_option trim (o_label opts);
          record0 = \<lparr> tIso = now, l_tMs = None, l_label = None, l_labelSha256 = None \<rparr>;
          record1 = (case o_tMs opts of None \<Rightarrow> record0 | Some t \<Rightarrow> record0\<lparr> l_tMs := Some t \<rparr>)
      in (case lbl of
            None \<Rightarrow> record1
          | Some l \<Rightarrow>
              if l = [] then record1
              else (let record2 = record1\<lparr> l_labelSha256 := Some (sha256Hex l) \<rparr>
                    in if storePlaintextLabel opts then record2\<lparr> l_label := Some l \<rparr>
                       else record2)))"

text \<open>The file markers.jsonl as the list of its lines; \<open>appendMarker\<close> adds one at the end.\<close>

definition appendMarker ::
  "(string \<Rightarrow> string) \<Rightarrow> string \<Rightarrow> AppendMarkerOptions \<Rightarrow> MarkerLine list \<Rightarrow> MarkerLine list" where
  "appendMarker sha256Hex now opts file = file @ [markerRecord sha256Hex now opts]"

definition markerLineToEvent :: "MarkerLine \<Rightarrow> int \<Rightarrow> MarkerEvent" where
  "markerLineToEvent line t = \<lparr> m_tMs = t, label = l_label line, labelSha256 = l_labelSha256 line \<rparr>"

section \<open>Selection of the external log (src/session/jsonlTracker.ts)\<close>

record JsonlCandidate =
  p :: string
  mtimeMs :: int
  sizeBytes :: nat

text \<open>The loop of \<open>pickLargestCandidate\<close>, with the variable \<open>best\<close> as accumulator.\<close>

fun pickLargestLoop :: "JsonlCandidate option \<Rightarrow> JsonlCandidate list \<Rightarrow> JsonlCandidate option" where
  "pickLargestLoop best [] = best"
| "pickLargestLoop best (c # cs) =
     (case best of
        None \<Rightarrow> pickLargestLoop (Some c) cs
      | Some b \<Rightarrow>
          if sizeBytes c > sizeBytes b then pickLargestLoop (Some c) cs
          else if sizeBytes c = sizeBytes b \<and> mtimeMs c > mtimeMs b then pickLargestLoop (Some c) cs
          else pickLargestLoop (Some b) cs)"

definition pickLargestCandidate :: "JsonlCandidate list \<Rightarrow> JsonlCandidate option" where
  "pickLargestCandidate candidates = pickLargestLoop None candidates"

text \<open>
  \<open>pickBestCandidateForConversation\<close>: the 25 most recently modified candidates are
  scored, the best score wins, ties go to the larger file. Reading a file to score it is
  the parameter \<open>score\<close>. JavaScript's \<open>sort\<close> is stable, as \<open>sort_key\<close> is.
\<close>

fun pickBestLoop ::
  "(JsonlCandidate \<Rightarrow> nat) \<Rightarrow> (JsonlCandidate \<times> nat) option \<Rightarrow> JsonlCandidate list
     \<Rightarrow> (JsonlCandidate \<times> nat) option" where
  "pickBestLoop score best [] = best"
| "pickBestLoop score best (c # cs) =
     (let sc = score c
      in case best of
           None \<Rightarrow> pickBestLoop score (Some (c, sc)) cs
         | Some (b, bs) \<Rightarrow>
             if sc > bs \<or> (sc = bs \<and> sizeBytes c > sizeBytes b)
             then pickBestLoop score (Some (c, sc)) cs
             else pickBestLoop score (Some (b, bs)) cs)"

definition pickBestCandidateForConversation ::
  "(JsonlCandidate \<Rightarrow> nat) \<Rightarrow> JsonlCandidate list \<Rightarrow> JsonlCandidate option" where
  "pickBestCandidateForConversation score candidates =
     (let sorted = sort_key (\<lambda>c. - mtimeMs c) candidates;
          toScore = take 25 sorted
      in case pickBestLoop score None toScore of
           Some (c, _) \<Rightarrow> Some c
         | None \<Rightarrow> pickLargestCandidate candidates)"

text \<open>
  The tracker's fields, and what \<open>ensureActivePath\<close> asks of the file system and of
  Node's path functions (\<open>pathExists\<close>, \<open>isDirectory\<close>, \<open>findRecentJsonlCandidates\<close>,
  \<open>path.resolve\<close>, \<open>path.join\<close>, \<open>os.homedir\<close>).
\<close>

record JsonlSizeSample =
  s_turnIndex :: nat
  s_tMs :: int
  s_sizeBytes :: nat

record JsonlTracker =
  startedAtMsEpoch :: int
  overridePath :: "string option"
  cwd :: "string option"
  allowReadForSelection :: bool
  projectsDirOverride :: "string option"
  activePath :: "string option"
  activePathSha256 :: "string option"
  samples :: "JsonlSizeSample list"

record fileSystem =
  pathExists :: "string \<Rightarrow> bool"
  isDirectory :: "string \<Rightarrow> bool"
  findRecentJsonlCandidates :: "string \<Rightarrow> int \<Rightarrow> nat \<Rightarrow> JsonlCandidate list"
  scoreJsonlCandidateForConversation :: "JsonlCandidate \<Rightarrow> nat"
  resolve :: "string \<Rightarrow> string"
  join :: "string \<Rightarrow> string \<Rightarrow> string"
  homedir :: string
  sha256Hex :: "string \<Rightarrow> string"

text \<open>A string in a condition: \<open>undefined\<close> and the empty string are false.\<close>

definition truthy :: "string option \<Rightarrow> bool" where
  "truthy x \<longleftrightarrow> (case x of None \<Rightarrow> False | Some str \<Rightarrow> str \<noteq> [])"

definition isAlnum :: "char \<Rightarrow> bool" where
  "isAlnum c \<longleftrightarrow> (let n = (of_char c :: nat)
                   in (48 \<le> n \<and> n \<le> 57) \<or> (65 \<le> n \<and> n \<le> 90) \<or> (97 \<le> n \<and> n \<le> 122))"

text \<open>
  \<open>replaceAll(/[^A-Za-z0-9]/g, "-")\<close>: the pattern has no \<open>u\<close> flag, so every UTF-16 code
  unit that is not an ASCII letter or digit becomes one hyphen. A character of one, two or
  three bytes is one code unit, a character of four bytes is two.
\<close>

function replaceNonAlnum :: "string \<Rightarrow> string" where
  "replaceNonAlnum [] = []"
| "replaceNonAlnum (c # cs) =
     (if isAlnum c then c # replaceNonAlnum cs
      else if charBytes c < 4 then CHR ''-'' # replaceNonAlnum (drop (charBytes c - 1) cs)
      else CHR ''-'' # CHR ''-'' # replaceNonAlnum (drop 3 cs))"
  by pat_completeness auto
termination
  by (relation "measure length") auto

definition encodeClaudeProjectDirName :: "fileSystem \<Rightarrow> string \<Rightarrow> string" where
  "encodeClaudeProjectDirName fs dir = replaceNonAlnum (resolve fs dir)"

text \<open>The loop over \<open>roots\<close>: the candidates of the first root that has any.\<close>

fun firstNonEmpty :: "fileSystem \<Rightarrow> int \<Rightarrow> (string \<times> nat) list \<Rightarrow> JsonlCandidate list" where
  "firstNonEmpty fs since [] = []"
| "firstNonEmpty fs since ((dir, maxDepth) # roots) =
     (let candidates = findRecentJsonlCandidates fs dir since maxDepth
      in if candidates \<noteq> [] then candidates else firstNonEmpty fs since roots)"

text \<open>
  \<open>ensureActivePath\<close>, in four parts: the path already chosen, the override, the roots to
  scan, and the selection among the candidates found.
\<close>

definition stillActive :: "fileSystem \<Rightarrow> JsonlTracker \<Rightarrow> bool" where
  "stillActive fs t \<longleftrightarrow>
     (case activePath t of None \<Rightarrow> False | Some a \<Rightarrow> a \<noteq> [] \<and> pathExists fs a)"

definition scanRoots :: "fileSystem \<Rightarrow> JsonlTracker \<Rightarrow> string \<Rightarrow> (string \<times> nat) list" where
  "scanRoots fs t projectsDir =
     (case cwd t of
        None \<Rightarrow> []
      | Some d \<Rightarrow>
          if d \<noteq> [] \<and> isDirectory fs (join fs projectsDir (encodeClaudeProjectDirName fs d))
          then [(join fs projectsDir (encodeClaudeProjectDirName fs d), 2)] else [])
     @ [(projectsDir, 6)]"

definition selectCandidate :: "fileSystem \<Rightarrow> JsonlTracker \<Rightarrow> JsonlCandidate list \<Rightarrow> JsonlCandidate option" where
  "selectCandidate fs t candidates =
     (if allowReadForSelection t
      then pickBestCandidateForConversation (scoreJsonlCandidateForConversation fs) candidates
      else pickLargestCandidate candidates)"

definition projectsDirOf :: "fileSystem \<Rightarrow> JsonlTracker \<Rightarrow> string" where
  "projectsDirOf fs t =
     (case projectsDirOverride t of
        Some d \<Rightarrow> d
      | None \<Rightarrow> join fs (join fs (homedir fs) ''.claude'') ''projects'')"

definition ensureActivePath :: "fileSystem \<Rightarrow> JsonlTracker \<Rightarrow> string option \<times> JsonlTracker" where
  "ensureActivePath fs t =
     (if stillActive fs t then (activePath t, t)
      else if truthy (overridePath t) then
        (let resolved = resolve fs (case overridePath t of Some path \<Rightarrow> path | None \<Rightarrow> [])
         in if pathExists fs resolved
            then (Some resolved,
                  t\<lparr> activePath := Some resolved, activePathSha256 := Some (sha256Hex fs resolved) \<rparr>)
            else (None, t))
      else
        (let projectsDir = projectsDirOf fs t
         in if \<not> pathExists fs projectsDir then (None, t)
            else
              (let sinceMsEpoch = startedAtMsEpoch t - 10000;
                   candidates = firstNonEmpty fs sinceMsEpoch (scanRoots fs t projectsDir)
               in if candidates = [] then (None, t)
                  else
                    (case selectCandidate fs t candidates of
                       None \<Rightarrow> (None, t)
                     | Some best \<Rightarrow>
                         (Some (p best),
                          t\<lparr> activePath := Some (p best),
                             activePathSha256 := Some (sha256Hex fs (p best)) \<rparr>)))))"

section \<open>Properties of the markers\<close>

lemma markerRecord_hash:
  "l_labelSha256 (markerRecord sha now opts) \<noteq> None \<longleftrightarrow>
     (\<exists>l. o_label opts = Some l \<and> trim l \<noteq> [])"
  by (auto simp: markerRecord_def Let_def split: option.splits)

lemma markerRecord_plain:
  "l_label (markerRecord sha now opts) \<noteq> None \<longleftrightarrow>
     (\<exists>l. o_label opts = Some l \<and> trim l \<noteq> []) \<and> storePlaintextLabel opts"
  by (auto simp: markerRecord_def Let_def split: option.splits)

text \<open>A label, plain-text storage switched on, and a stand-in for the hash function.\<close>

definition plainOpts :: AppendMarkerOptions where
  "plainOpts = \<lparr> markersPath = ''markers.jsonl'', o_tMs = Some 1500,
                 o_label = Some ''deploy'', storePlaintextLabel = True \<rparr>"

definition hashedOpts :: AppendMarkerOptions where
  "hashedOpts = \<lparr> markersPath = ''markers.jsonl'', o_tMs = Some 1500,
                  o_label = Some ''deploy'', storePlaintextLabel = False \<rparr>"

definition toyHash :: "string \<Rightarrow> string" where
  "toyHash str = ''sha256:'' @ str"

text \<open>A label of a no-break space (U+00A0) and a space.\<close>

definition blankOpts :: AppendMarkerOptions where
  "blankOpts = \<lparr> markersPath = ''markers.jsonl'', o_tMs = Some 1500,
                 o_label = Some [CHR 0xC2, CHR 0xA0, CHR 0x20], storePlaintextLabel = True \<rparr>"

lemma trim_deploy: "trim ''deploy'' = ''deploy''"
  by code_simp

lemma trim_blank: "trim [CHR 0xC2, CHR 0xA0, CHR 0x20] = []"
  by code_simp

text \<open>
  C3, as stated, fails: with plain-text storage enabled \<open>appendMarker\<close> writes a line that
  carries both \<open>label\<close> and \<open>labelSha256\<close>, and the marker event made from that line
  carries both as well.
\<close>

theorem C3_both_forms_counterexample:
  "l_label (last (appendMarker toyHash ''2026-01-01T00:00:00.000Z'' plainOpts [])) = Some ''deploy''
   \<and> l_labelSha256 (last (appendMarker toyHash ''2026-01-01T00:00:00.000Z'' plainOpts []))
       = Some ''sha256:deploy''
   \<and> label (markerLineToEvent
        (last (appendMarker toyHash ''2026-01-01T00:00:00.000Z'' plainOpts [])) 1500) = Some ''deploy''
   \<and> labelSha256 (markerLineToEvent
        (last (appendMarker toyHash ''2026-01-01T00:00:00.000Z'' plainOpts [])) 1500)
       = Some ''sha256:deploy''"
  by (simp add: appendMarker_def markerRecord_def markerLineToEvent_def plainOpts_def
        toyHash_def trim_deploy)

text \<open>
  C3, amended: the line that \<open>appendMarker\<close> writes carries \<open>labelSha256\<close> exactly when a
  label that is not blank was given, and carries \<open>label\<close> exactly when in addition
  plain-text storage is enabled. So an annotated line always has the hash, has the hash
  alone when plain-text storage is off, and has both forms when it is on; the plain form
  never stands alone. \<open>markerLineToEvent\<close> hands both fields on unchanged.
\<close>

theorem C3_label_forms:
  "last (appendMarker sha now opts file) = markerRecord sha now opts
   \<and> (l_labelSha256 (markerRecord sha now opts) \<noteq> None
        \<longleftrightarrow> (\<exists>l. o_label opts = Some l \<and> trim l \<noteq> []))
   \<and> (l_label (markerRecord sha now opts) \<noteq> None
        \<longleftrightarrow> l_labelSha256 (markerRecord sha now opts) \<noteq> None \<and> storePlaintextLabel opts)
   \<and> label (markerLineToEvent (markerRecord sha now opts) t) = l_label (markerRecord sha now opts)
   \<and> labelSha256 (markerLineToEvent (markerRecord sha now opts) t)
        = l_labelSha256 (markerRecord sha now opts)"
  using markerRecord_hash [of sha now opts] markerRecord_plain [of sha now opts]
  by (simp add: appendMarker_def markerLineToEvent_def)

theorem C3_label_forms_witness:
  "l_labelSha256 (markerRecord toyHash ''2026-01-01T00:00:00.000Z'' hashedOpts) = Some ''sha256:deploy''
   \<and> l_label (markerRecord toyHash ''2026-01-01T00:00:00.000Z'' hashedOpts) = None
   \<and> l_label (markerRecord toyHash ''2026-01-01T00:00:00.000Z'' plainOpts) \<noteq> None
   \<and> l_labelSha256 (markerRecord toyHash ''2026-01-01T00:00:00.000Z'' blankOpts) = None
   \<and> l_label (markerRecord toyHash ''2026-01-01T00:00:00.000Z'' blankOpts) = None"
  using C3_label_forms [of toyHash "''2026-01-01T00:00:00.000Z''" hashedOpts "[]" 1500]
        C3_label_forms [of toyHash "''2026-01-01T00:00:00.000Z''" plainOpts "[]" 1500]
        C3_label_forms [of toyHash "''2026-01-01T00:00:00.000Z''" blankOpts "[]" 1500]
  by (simp add: markerRecord_def hashedOpts_def plainOpts_def blankOpts_def toyHash_def
        trim_deploy trim_blank)

section \<open>Properties of the selection\<close>

lemma pickLargestLoop_Some: "\<exists>b. pickLargestLoop (Some b0) cs = Some b"
  by (induction cs arbitrary: b0) auto

text \<open>\<open>noSmaller b c\<close>: \<open>c\<close> is not larger than \<open>b\<close>, and not newer when of the same size.\<close>

definition noSmaller :: "JsonlCandidate \<Rightarrow> JsonlCandidate \<Rightarrow> bool" where
  "noSmaller b c \<longleftrightarrow>
     sizeBytes c < sizeBytes b \<or> (sizeBytes c = sizeBytes b \<and> mtimeMs c \<le> mtimeMs b)"

lemma pickLargestLoop_max:
  "pickLargestLoop (Some b0) cs = Some b \<Longrightarrow>
     b \<in> insert b0 (set cs) \<and> noSmaller b b0 \<and> (\<forall>c \<in> set cs. noSmaller b c)"
proof (induction cs arbitrary: b0)
  case Nil
  then show ?case by (simp add: noSmaller_def)
next
  case (Cons c cs)
  show ?case
  proof (cases "sizeBytes c > sizeBytes b0 \<or> (sizeBytes c = sizeBytes b0 \<and> mtimeMs c > mtimeMs b0)")
    case True
    with Cons.prems have "pickLargestLoop (Some c) cs = Some b" by auto
    from Cons.IH [OF this] True show ?thesis by (auto simp: noSmaller_def)
  next
    case False
    with Cons.prems have "pickLargestLoop (Some b0) cs = Some b" by auto
    from Cons.IH [OF this] False show ?thesis by (auto simp: noSmaller_def)
  qed
qed

lemma pickLargest_nonempty:
  assumes "cs \<noteq> []"
  shows "\<exists>b. pickLargestCandidate cs = Some b \<and> b \<in> set cs \<and> (\<forall>c \<in> set cs. noSmaller b c)"
proof -
  from assms obtain c cs' where cs: "cs = c # cs'" by (cases cs) auto
  obtain b where b: "pickLargestLoop (Some c) cs' = Some b"
    using pickLargestLoop_Some by blast
  from pickLargestLoop_max [OF b] b show ?thesis
    by (auto simp: cs pickLargestCandidate_def)
qed

text \<open>The scenario of the selection test: a small, newer snapshot and a large, older log.\<close>

definition snapshotFile :: JsonlCandidate where
  "snapshotFile = \<lparr> p = ''/projects/-w/snapshot.jsonl'', mtimeMs = 5000, sizeBytes = 32 \<rparr>"

definition conversationFile :: JsonlCandidate where
  "conversationFile = \<lparr> p = ''/projects/-w/conversation.jsonl'', mtimeMs = 1000, sizeBytes = 4000 \<rparr>"

definition testFs :: fileSystem where
  "testFs = \<lparr> pathExists = (\<lambda>path. True), isDirectory = (\<lambda>path. True),
              findRecentJsonlCandidates = (\<lambda>dir since depth. [snapshotFile, conversationFile]),
              scoreJsonlCandidateForConversation = (\<lambda>c. 0),
              resolve = (\<lambda>path. path), join = (\<lambda>a b. a @ ''/'' @ b),
              homedir = ''/home/u'', sha256Hex = toyHash \<rparr>"

definition testTracker :: JsonlTracker where
  "testTracker = \<lparr> startedAtMsEpoch = 0, overridePath = None, cwd = Some ''/w'',
                   allowReadForSelection = False, projectsDirOverride = Some ''/projects'',
                   activePath = None, activePathSha256 = None, samples = [] \<rparr>"

text \<open>
  C8: without reading for selection, when \<open>ensureActivePath\<close> comes to choose among the
  candidates found (no path chosen before that still exists, no override, the projects
  directory exists, the scan found candidates), it returns the path of the candidate that
  \<open>pickLargestCandidate\<close> picks: a candidate of the greatest size and, among those of
  that size, of the most recent modification time. Of two candidates of different sizes
  it returns the larger, in whichever order the scan lists them.
\<close>

theorem C8_no_read_selection:
  assumes "\<not> allowReadForSelection t"
    and "\<not> stillActive fs t" and "\<not> truthy (overridePath t)"
    and "pathExists fs (projectsDirOf fs t)"
    and "firstNonEmpty fs (startedAtMsEpoch t - 10000) (scanRoots fs t (projectsDirOf fs t))
           = candidates"
    and "candidates \<noteq> []"
  shows "\<exists>best. fst (ensureActivePath fs t) = Some (p best)
           \<and> activePath (snd (ensureActivePath fs t)) = Some (p best)
           \<and> pickLargestCandidate candidates = Some best
           \<and> best \<in> set candidates
           \<and> (\<forall>c \<in> set candidates. sizeBytes c \<le> sizeBytes best
                 \<and> (sizeBytes c = sizeBytes best \<longrightarrow> mtimeMs c \<le> mtimeMs best))
           \<and> (\<forall>a b. (candidates = [a, b] \<or> candidates = [b, a]) \<and> sizeBytes b < sizeBytes a
                 \<longrightarrow> best = a)"
proof -
  obtain best where best: "pickLargestCandidate candidates = Some best"
      "best \<in> set candidates" "\<forall>c \<in> set candidates. noSmaller best c"
    using pickLargest_nonempty [OF assms(6)] by blast
  have sel: "selectCandidate fs t candidates = Some best"
    using assms(1) best(1) by (simp add: selectCandidate_def)
  have res: "ensureActivePath fs t =
               (Some (p best), t\<lparr> activePath := Some (p best),
                                  activePathSha256 := Some (sha256Hex fs (p best)) \<rparr>)"
    using assms(2-6) sel by (simp add: ensureActivePath_def Let_def)
  have order: "\<forall>c \<in> set candidates. sizeBytes c \<le> sizeBytes best
                 \<and> (sizeBytes c = sizeBytes best \<longrightarrow> mtimeMs c \<le> mtimeMs best)"
    using best(3) by (auto simp: noSmaller_def)
  have two: "\<forall>a b. (candidates = [a, b] \<or> candidates = [b, a]) \<and> sizeBytes b < sizeBytes a
                 \<longrightarrow> best = a"
    using best(2) order by fastforce
  show ?thesis
    using res best(1,2) order two by (intro exI [of _ best]) simp
qed

theorem C8_no_read_selection_witness:
  "fst (ensureActivePath testFs testTracker) = Some ''/projects/-w/conversation.jsonl''"
proof -
  have "\<exists>best. fst (ensureActivePath testFs testTracker) = Some (p best)
          \<and> activePath (snd (ensureActivePath testFs testTracker)) = Some (p best)
          \<and> pickLargestCandidate [snapshotFile, conversationFile] = Some best
          \<and> best \<in> set [snapshotFile, conversationFile]
          \<and> (\<forall>c \<in> set [snapshotFile, conversationFile]. sizeBytes c \<le> sizeBytes best
                \<and> (sizeBytes c = sizeBytes best \<longrightarrow> mtimeMs c \<le> mtimeMs best))
          \<and> (\<forall>a b. ([snapshotFile, conversationFile] = [a, b]
                      \<or> [snapshotFile, conversationFile] = [b, a]) \<and> sizeBytes b < sizeBytes a
                \<longrightarrow> best = a)"
    by (rule C8_no_read_selection)
       (simp_all add: testFs_def testTracker_def stillActive_def truthy_def projectsDirOf_def
          scanRoots_def)
  then obtain best where "fst (ensureActivePath testFs testTracker) = Some (p best)"
      and "\<forall>a b. ([snapshotFile, conversationFile] = [a, b]
                      \<or> [snapshotFile, conversationFile] = [b, a]) \<and> sizeBytes b < sizeBytes a
                \<longrightarrow> best = a"
    by blast
  moreover have "sizeBytes snapshotFile < sizeBytes conversationFile"
    by (simp add: snapshotFile_def conversationFile_def)
  ultimately have "fst (ensureActivePath testFs testTracker) = Some (p conversationFile)"
    by blast
  then show ?thesis by (simp add: conversationFile_def)
qed

section \<open>Invariants of the interaction tracker\<close>

subsection \<open>What each operation does to each field\<close>

lemma clearIfSet_fields [simp]:
  "nextId (clearIfSet x s) = nextId s"
  "turnIndex (clearIfSet x s) = turnIndex s"
  "activeKeystroke (clearIfSet x s) = activeKeystroke s"
  "activeTurn (clearIfSet x s) = activeTurn s"
  "heap (clearIfSet x s) = heap s"
  "nextHandle (clearIfSet x s) = nextHandle s"
  "clock (clearIfSet x s) = clock s"
  "emitted (clearIfSet x s) = emitted s"
  by (simp_all add: clearIfSet_def clearTimeout_def split: option.splits)

lemma setTimeout_fields [simp]:
  "fst (setTimeout c d s) = nextHandle s"
  "nextId (snd (setTimeout c d s)) = nextId s"
  "turnIndex (snd (setTimeout c d s)) = turnIndex s"
  "activeKeystroke (snd (setTimeout c d s)) = activeKeystroke s"
  "activeTurn (snd (setTimeout c d s)) = activeTurn s"
  "heap (snd (setTimeout c d s)) = heap s"
  "nextHandle (snd (setTimeout c d s)) = nextHandle s + 1"
  "clock (snd (setTimeout c d s)) = clock s"
  "emitted (snd (setTimeout c d s)) = emitted s"
  by (simp_all add: setTimeout_def)

lemma modify_fields [simp]:
  "nextId (modify r f s) = nextId s"
  "turnIndex (modify r f s) = turnIndex s"
  "activeKeystroke (modify r f s) = activeKeystroke s"
  "activeTurn (modify r f s) = activeTurn s"
  "timers (modify r f s) = timers s"
  "nextHandle (modify r f s) = nextHandle s"
  "clock (modify r f s) = clock s"
  "emitted (modify r f s) = emitted s"
  by (simp_all add: modify_def split: option.splits)

lemma heap_modify:
  "heap (modify r f s) = (case heap s r of None \<Rightarrow> heap s | Some ob \<Rightarrow> (heap s)(r \<mapsto> f ob))"
  by (simp add: modify_def split: option.splits)

lemma finalize_fields [simp]:
  "nextId (finalize r reason s) = nextId s"
  "turnIndex (finalize r reason s) = turnIndex s"
  "heap (finalize r reason s) = heap s"
  "nextHandle (finalize r reason s) = nextHandle s"
  "clock (finalize r reason s) = clock s"
  by (simp_all add: finalize_def Let_def split: option.splits)

lemma emitted_finalize:
  "emitted (finalize r reason s) =
     emitted s @ (case heap s r of None \<Rightarrow> [] | Some ob \<Rightarrow> [OnInteraction (mkInteraction ob reason)])"
  by (simp add: finalize_def Let_def split: option.splits)

lemma slots_finalize:
  "activeKeystroke (finalize r reason s) =
     (case heap s r of None \<Rightarrow> activeKeystroke s
      | Some ob \<Rightarrow> if slotHasId s (activeKeystroke s) (it_id ob) then None else activeKeystroke s)"
  "activeTurn (finalize r reason s) =
     (case heap s r of None \<Rightarrow> activeTurn s
      | Some ob \<Rightarrow> if slotHasId s (activeTurn s) (it_id ob) then None else activeTurn s)"
  by (simp_all add: finalize_def Let_def slotHasId_def split: option.splits)

lemma startInteraction_fields [simp]:
  "fst (startInteraction opts k t0 extra s) = nextId s"
  "nextId (snd (startInteraction opts k t0 extra s)) = nextId s + 1"
  "turnIndex (snd (startInteraction opts k t0 extra s)) = turnIndex s"
  "activeKeystroke (snd (startInteraction opts k t0 extra s)) = activeKeystroke s"
  "activeTurn (snd (startInteraction opts k t0 extra s)) = activeTurn s"
  "nextHandle (snd (startInteraction opts k t0 extra s)) = nextHandle s + 1"
  "clock (snd (startInteraction opts k t0 extra s)) = clock s"
  "emitted (snd (startInteraction opts k t0 extra s)) = emitted s"
  by (simp_all add: startInteraction_def Let_def setTimeout_def modify_def)

lemma heap_startInteraction:
  "heap (snd (startInteraction opts k t0 extra s)) =
     (heap s)(nextId s \<mapsto>
        \<lparr> it_id = nextId s, it_kind = k, it_t0Ms = t0,
          firstOutputAtMs = None, lastOutputAtMs = None,
          it_inputBytes = 0, it_outputBytes = 0, it_turnIndex = extra,
          idleTimer = None, noOutputTimeout = Some (nextHandle s) \<rparr>)"
  by (simp add: startInteraction_def Let_def setTimeout_def modify_def)

lemma timers_startInteraction:
  "timers (snd (startInteraction opts k t0 extra s)) =
     timers s @ [\<lparr> handle = nextHandle s, due = clock s + timerDelay (interactionTimeoutMs opts),
                   cb = NoOutputCb (nextId s) \<rparr>]"
  by (simp add: startInteraction_def Let_def setTimeout_def modify_def)

lemma observeOutput_fields [simp]:
  "nextId (observeOutput opts r now b s) = nextId s"
  "turnIndex (observeOutput opts r now b s) = turnIndex s"
  "activeKeystroke (observeOutput opts r now b s) = activeKeystroke s"
  "activeTurn (observeOutput opts r now b s) = activeTurn s"
  "clock (observeOutput opts r now b s) = clock s"
  "emitted (observeOutput opts r now b s) = emitted s"
  by (simp_all add: observeOutput_def Let_def setTimeout_def modify_def clearIfSet_def clearTimeout_def
        split: option.splits)

lemma heap_observeOutput:
  "heap (observeOutput opts r now b s) =
     (case heap s r of
        None \<Rightarrow> heap s
      | Some ob \<Rightarrow>
          (heap s)(r \<mapsto>
             ob\<lparr> firstOutputAtMs := (case firstOutputAtMs ob of None \<Rightarrow> Some now | Some a \<Rightarrow> Some a),
                 noOutputTimeout := (case firstOutputAtMs ob of None \<Rightarrow> None | Some a \<Rightarrow> noOutputTimeout ob),
                 lastOutputAtMs := Some now,
                 it_outputBytes := it_outputBytes ob + b,
                 idleTimer := Some (nextHandle s) \<rparr>))"
  by (auto simp: observeOutput_def Let_def setTimeout_def modify_def clearIfSet_def clearTimeout_def
        split: option.splits)

lemma addInput_fields [simp]:
  "nextId (addInput slot n s) = nextId s"
  "turnIndex (addInput slot n s) = turnIndex s"
  "activeKeystroke (addInput slot n s) = activeKeystroke s"
  "activeTurn (addInput slot n s) = activeTurn s"
  "timers (addInput slot n s) = timers s"
  "nextHandle (addInput slot n s) = nextHandle s"
  "clock (addInput slot n s) = clock s"
  "emitted (addInput slot n s) = emitted s"
  by (simp_all add: addInput_def split: option.splits)

lemma heap_addInput:
  "heap (addInput slot n s) =
     (case slot of None \<Rightarrow> heap s
      | Some r \<Rightarrow> (case heap s r of None \<Rightarrow> heap s
                   | Some ob \<Rightarrow> (heap s)(r \<mapsto> ob\<lparr> it_inputBytes := it_inputBytes ob + n \<rparr>)))"
  by (simp add: addInput_def modify_def split: option.splits)

subsection \<open>Well-formed states\<close>

text \<open>
  \<open>objOk\<close>: an object is stored under its own id, below \<open>nextId\<close>; it has a first output
  time exactly when it has a last one, and has counted no output bytes before that.
  \<open>slotsOk\<close>: each slot holds an object of its kind, and the active turn interaction
  carries the current turn index. \<open>emittedOk\<close>: an interaction that was handed to
  \<open>onInteraction\<close> is in no slot, it is the snapshot of its object, which has not changed
  since, and it ended by timeout only with no first output time.
\<close>

definition inSlot :: "tracker \<Rightarrow> nat \<Rightarrow> bool" where
  "inSlot s r \<longleftrightarrow> activeKeystroke s = Some r \<or> activeTurn s = Some r"

definition objOk :: "tracker \<Rightarrow> bool" where
  "objOk s \<longleftrightarrow>
     (\<forall>r ob. heap s r = Some ob \<longrightarrow>
        it_id ob = r \<and> r < nextId s
        \<and> (firstOutputAtMs ob = None \<longleftrightarrow> lastOutputAtMs ob = None)
        \<and> (firstOutputAtMs ob = None \<longrightarrow> it_outputBytes ob = 0))"

definition slotsOk :: "tracker \<Rightarrow> bool" where
  "slotsOk s \<longleftrightarrow>
     (\<forall>r. activeKeystroke s = Some r \<longrightarrow> (\<exists>ob. heap s r = Some ob \<and> it_kind ob = Keystroke))
     \<and> (\<forall>r. activeTurn s = Some r \<longrightarrow>
           (\<exists>ob. heap s r = Some ob \<and> it_kind ob = Turn \<and> it_turnIndex ob = Some (turnIndex s)))"

definition emittedOk :: "tracker \<Rightarrow> bool" where
  "emittedOk s \<longleftrightarrow>
     (\<forall>i. OnInteraction i \<in> set (emitted s) \<longrightarrow>
        \<not> inSlot s (i_id i)
        \<and> (\<exists>ob. heap s (i_id i) = Some ob \<and> i = mkInteraction ob (endReason i))
        \<and> (endReason i = Timeout \<longrightarrow> t1Ms i = None))"

definition trackerOk :: "tracker \<Rightarrow> bool" where
  "trackerOk s \<longleftrightarrow> objOk s \<and> slotsOk s \<and> emittedOk s"

lemma wf_init: "trackerOk init"
  by (simp add: trackerOk_def objOk_def slotsOk_def emittedOk_def init_def)

lemma mk_fields [simp]:
  "i_id (mkInteraction ob reason) = it_id ob"
  "endReason (mkInteraction ob reason) = reason"
  "i_kind (mkInteraction ob reason) = it_kind ob"
  "i_turnIndex (mkInteraction ob reason) = it_turnIndex ob"
  "i_outputBytes (mkInteraction ob reason) = it_outputBytes ob"
  "i_inputBytes (mkInteraction ob reason) = it_inputBytes ob"
  "t1Ms (mkInteraction ob reason) = map_option (\<lambda>t. t - it_t0Ms ob) (firstOutputAtMs ob)"
  "t2Ms (mkInteraction ob reason) = map_option (\<lambda>t. t - it_t0Ms ob) (lastOutputAtMs ob)"
  by (simp_all add: mkInteraction_def split: option.splits)

lemma mk_mk [simp]: "mkInteraction ob (endReason (mkInteraction ob reason)) = mkInteraction ob reason"
  by (simp add: mkInteraction_def)

lemma wf_finalize:
  assumes "trackerOk s" and "reason = Timeout \<longrightarrow> (\<forall>ob. heap s r = Some ob \<longrightarrow> firstOutputAtMs ob = None)"
  shows "trackerOk (finalize r reason s)"
proof (cases "heap s r")
  case None
  then show ?thesis using assms by (simp add: finalize_def)
next
  case (Some ob)
  have id: "it_id ob = r" using assms(1) Some by (auto simp: trackerOk_def objOk_def)
  have ks: "activeKeystroke (finalize r reason s) = (if activeKeystroke s = Some r then None else activeKeystroke s)"
    using assms(1) Some id by (auto simp: slots_finalize slotHasId_def trackerOk_def objOk_def slotsOk_def split: option.splits)
  have ts: "activeTurn (finalize r reason s) = (if activeTurn s = Some r then None else activeTurn s)"
    using assms(1) Some id by (auto simp: slots_finalize slotHasId_def trackerOk_def objOk_def slotsOk_def split: option.splits)
  have "objOk (finalize r reason s)" using assms(1) by (simp add: trackerOk_def objOk_def)
  moreover have "slotsOk (finalize r reason s)"
    using assms(1) by (auto simp: trackerOk_def slotsOk_def ks ts)
  moreover have "emittedOk (finalize r reason s)"
    using assms Some id by (auto simp: trackerOk_def emittedOk_def inSlot_def ks ts emitted_finalize)
  ultimately show ?thesis by (simp add: trackerOk_def)
qed


lemma wf_observeOutput:
  assumes "trackerOk s" and "inSlot s r"
  shows "trackerOk (observeOutput opts r now b s)"
proof -
  have "objOk (observeOutput opts r now b s)"
    using assms(1) by (auto simp: trackerOk_def objOk_def heap_observeOutput split: option.splits if_splits)
  moreover have "slotsOk (observeOutput opts r now b s)"
    using assms(1) by (auto simp: trackerOk_def slotsOk_def heap_observeOutput split: option.splits)
  moreover have "emittedOk (observeOutput opts r now b s)"
    using assms by (auto simp: trackerOk_def emittedOk_def inSlot_def heap_observeOutput split: option.splits)
  ultimately show ?thesis by (simp add: trackerOk_def)
qed

lemma wf_addInput:
  assumes "trackerOk s" and "slot = activeKeystroke s \<or> slot = activeTurn s"
  shows "trackerOk (addInput slot n s)"
proof -
  have "objOk (addInput slot n s)"
    using assms(1) by (auto simp: trackerOk_def objOk_def heap_addInput split: option.splits if_splits)
  moreover have "slotsOk (addInput slot n s)"
    using assms(1) by (auto simp: trackerOk_def slotsOk_def heap_addInput split: option.splits)
  moreover have "emittedOk (addInput slot n s)"
    using assms by (auto simp: trackerOk_def emittedOk_def inSlot_def heap_addInput split: option.splits)
  ultimately show ?thesis by (simp add: trackerOk_def)
qed

lemma objOkD:
  "objOk s \<Longrightarrow> heap s r = Some ob \<Longrightarrow>
     it_id ob = r \<and> r < nextId s \<and> (firstOutputAtMs ob = None \<longleftrightarrow> lastOutputAtMs ob = None)
     \<and> (firstOutputAtMs ob = None \<longrightarrow> it_outputBytes ob = 0)"
  by (simp add: objOk_def)

lemma wf_heap_fresh: "trackerOk s \<Longrightarrow> heap s (nextId s) = None"
  by (cases "heap s (nextId s)") (auto simp: trackerOk_def objOk_def)

lemma wf_emitted_lt: "trackerOk s \<Longrightarrow> OnInteraction i \<in> set (emitted s) \<Longrightarrow> i_id i < nextId s"
  by (auto simp: trackerOk_def objOk_def emittedOk_def)

lemma wf_start_keystroke:
  assumes "trackerOk s"
  shows "trackerOk ((snd (startInteraction opts Keystroke now None s))\<lparr> activeKeystroke := Some (nextId s) \<rparr>)"
proof -
  let ?s = "(snd (startInteraction opts Keystroke now None s))\<lparr> activeKeystroke := Some (nextId s) \<rparr>"
  have fresh: "heap s (nextId s) = None" using assms by (rule wf_heap_fresh)
  have "objOk ?s"
    unfolding objOk_def
    using objOkD [of s] assms by (auto simp: trackerOk_def heap_startInteraction less_SucI split: if_splits)
  moreover have "slotsOk ?s"
    using assms fresh by (auto simp: trackerOk_def slotsOk_def heap_startInteraction)
  moreover have "emittedOk ?s"
    using assms fresh wf_emitted_lt [OF assms]
    by (auto simp: trackerOk_def emittedOk_def inSlot_def heap_startInteraction)
  ultimately show ?thesis by (simp add: trackerOk_def)
qed

lemma wf_keystrokeInput: "trackerOk s \<Longrightarrow> trackerOk (keystrokeInput opts now n s)"
  by (auto simp: keystrokeInput_def Let_def split_beta intro!: wf_addInput wf_start_keystroke)

lemma keystrokeInput_fields [simp]:
  "turnIndex (keystrokeInput opts now n s) = turnIndex s"
  "activeTurn (keystrokeInput opts now n s) = activeTurn s"
  "emitted (keystrokeInput opts now n s) = emitted s"
  "clock (keystrokeInput opts now n s) = clock s"
  by (simp_all add: keystrokeInput_def Let_def split_beta)

lemma beginTurn_fields [simp]:
  "turnIndex (beginTurn opts src now s) = turnIndex s + 1"
  "nextId (beginTurn opts src now s) = nextId s + 1"
  "activeTurn (beginTurn opts src now s) = Some (nextId s)"
  "clock (beginTurn opts src now s) = clock s"
  by (simp_all add: beginTurn_def Let_def split_beta split: option.splits)

lemma emitted_beginTurn:
  "emitted (beginTurn opts src now s) =
     emitted s @ [OnTurn \<lparr> index = turnIndex s + 1, tMs = now, source = src \<rparr>]
       @ (case activeTurn s of
            None \<Rightarrow> []
          | Some r \<Rightarrow> (case heap s r of
                         None \<Rightarrow> []
                       | Some ob \<Rightarrow> [OnInteraction (mkInteraction ob Overlap)]))"
  by (simp add: beginTurn_def Let_def split_beta emitted_finalize split: option.splits)

lemma heap_beginTurn:
  "heap (beginTurn opts src now s) =
     (heap s)(nextId s \<mapsto>
        \<lparr> it_id = nextId s, it_kind = Turn, it_t0Ms = now,
          firstOutputAtMs = None, lastOutputAtMs = None,
          it_inputBytes = 0, it_outputBytes = 0, it_turnIndex = Some (turnIndex s + 1),
          idleTimer = None, noOutputTimeout = Some (nextHandle s) \<rparr>)"
  by (simp add: beginTurn_def Let_def split_beta heap_startInteraction split: option.splits)

lemma activeKeystroke_beginTurn:
  "trackerOk s \<Longrightarrow> activeKeystroke (beginTurn opts src now s) = activeKeystroke s"
  by (auto simp: beginTurn_def Let_def split_beta slots_finalize slotHasId_def trackerOk_def objOk_def slotsOk_def
      split: option.splits)

lemma wf_beginTurn:
  assumes "trackerOk s"
  shows "trackerOk (beginTurn opts src now s)"
proof -
  have fresh: "heap s (nextId s) = None" using assms by (rule wf_heap_fresh)
  have "objOk (beginTurn opts src now s)"
    unfolding objOk_def
    using objOkD [of s] assms by (auto simp: trackerOk_def heap_beginTurn less_SucI split: if_splits)
  moreover have "slotsOk (beginTurn opts src now s)"
    using assms fresh by (auto simp: trackerOk_def slotsOk_def heap_beginTurn activeKeystroke_beginTurn)
  moreover have "emittedOk (beginTurn opts src now s)"
    unfolding emittedOk_def
  proof (intro allI impI)
    fix i
    assume i: "OnInteraction i \<in> set (emitted (beginTurn opts src now s))"
    have old: "OnInteraction i \<in> set (emitted s) \<Longrightarrow>
                 \<not> inSlot (beginTurn opts src now s) (i_id i)
                 \<and> (\<exists>ob. heap (beginTurn opts src now s) (i_id i) = Some ob
                        \<and> i = mkInteraction ob (endReason i))
                 \<and> (endReason i = Timeout \<longrightarrow> t1Ms i = None)"
      using assms wf_emitted_lt [OF assms, of i]
      by (auto simp: trackerOk_def emittedOk_def inSlot_def heap_beginTurn activeKeystroke_beginTurn)
    show "\<not> inSlot (beginTurn opts src now s) (i_id i)
            \<and> (\<exists>ob. heap (beginTurn opts src now s) (i_id i) = Some ob
                   \<and> i = mkInteraction ob (endReason i))
            \<and> (endReason i = Timeout \<longrightarrow> t1Ms i = None)"
    proof (cases "OnInteraction i \<in> set (emitted s)")
      case True
      then show ?thesis by (rule old)
    next
      case False
      from i False obtain r where r1: "activeTurn s = Some r"
        by (cases "activeTurn s") (auto simp: emitted_beginTurn)
      from i False r1 obtain ob where r2: "heap s r = Some ob"
        by (cases "heap s r") (auto simp: emitted_beginTurn)
      from i False r1 r2 have i_eq: "i = mkInteraction ob Overlap"
        by (auto simp: emitted_beginTurn)
      note r = r1 r2
      have idr: "it_id ob = r" "r < nextId s" "it_kind ob = Turn"
        using assms r by (auto simp: trackerOk_def objOk_def slotsOk_def)
      have "activeKeystroke s \<noteq> Some r"
        using assms r idr by (auto simp: trackerOk_def slotsOk_def)
      then show ?thesis
        using r idr i_eq assms
        by (simp add: inSlot_def heap_beginTurn activeKeystroke_beginTurn)
    qed
  qed
  ultimately show ?thesis by (simp add: trackerOk_def)
qed

lemma wf_handleInput: "trackerOk s \<Longrightarrow> trackerOk (handleInput opts now data n s)"
  by (auto simp: handleInput_def Let_def intro!: wf_addInput wf_beginTurn wf_keystrokeInput)

lemma wf_handleOutput: "trackerOk s \<Longrightarrow> trackerOk (handleOutput opts now b s)"
  by (auto simp: handleOutput_def Let_def inSlot_def split: option.splits intro!: wf_observeOutput)

lemma wf_slot_update:
  "trackerOk s \<Longrightarrow> trackerOk (s\<lparr> activeKeystroke := None \<rparr>)" "trackerOk s \<Longrightarrow> trackerOk (s\<lparr> activeTurn := None \<rparr>)"
  by (auto simp: trackerOk_def objOk_def slotsOk_def emittedOk_def inSlot_def)

lemma wf_endSession: "trackerOk s \<Longrightarrow> trackerOk (endSession s)"
  by (auto simp: endSession_def Let_def split: option.splits intro!: wf_slot_update wf_finalize)

lemma wf_timers_update [simp]: "trackerOk (s\<lparr> timers := x \<rparr>) = trackerOk s" "trackerOk (s\<lparr> clock := y \<rparr>) = trackerOk s"
  by (simp_all add: trackerOk_def objOk_def slotsOk_def emittedOk_def inSlot_def)

lemma wf_fire: "trackerOk s \<Longrightarrow> trackerOk (fire c s)"
  by (auto simp: fire_def split: callback.splits option.splits intro!: wf_finalize)

lemma wf_timerFires: "trackerOk s \<Longrightarrow> trackerOk (timerFires h s)"
  by (auto simp: timerFires_def split: option.splits intro!: wf_fire)

lemma wf_run_due: "trackerOk s \<Longrightarrow> trackerOk (run_due target s)"
proof (induction target s rule: run_due.induct)
  case (1 target s)
  show ?case
  proof (cases "earliest (filter (\<lambda>t. due t \<le> target) (timers s))")
    case None
    then show ?thesis using "1.prems" by (subst run_due.simps) simp
  next
    case (Some t)
    have "trackerOk (fire (cb t) (s\<lparr> clock := max (clock s) (due t),
                   timers := filter (\<lambda>u. handle u \<noteq> handle t) (timers s) \<rparr>))"
      using "1.prems" by (intro wf_fire) simp
    from "1.IH" [OF Some this] Some show ?thesis by (subst run_due.simps) simp
  qed
qed

lemma wf_step: "trackerOk s \<Longrightarrow> trackerOk (step opts e s)"
  by (cases e) (simp_all add: wf_handleInput wf_handleOutput markTurn_def wf_beginTurn wf_endSession
      wf_timerFires wf_run_due)

lemma wf_run_from: "trackerOk s \<Longrightarrow> trackerOk (run opts es s)"
  by (induction es arbitrary: s) (simp_all add: run_def wf_step)

lemma wf_run: "trackerOk (run opts es init)"
  by (rule wf_run_from [OF wf_init])

subsection \<open>More field lemmas\<close>

lemma emitted_handleInput:
  "emitted (handleInput opts now data n s) =
     (if turnDetection opts = Enter \<and> bufferContainsEnter data
      then emitted (beginTurn opts Enter now (keystrokeInput opts now n s))
      else emitted s)"
  by (simp add: handleInput_def Let_def)

lemma turnIndex_handleInput:
  "turnIndex (handleInput opts now data n s) =
     (if turnDetection opts = Enter \<and> bufferContainsEnter data then turnIndex s + 1 else turnIndex s)"
  by (simp add: handleInput_def Let_def)

lemma handleOutput_fields [simp]:
  "turnIndex (handleOutput opts now b s) = turnIndex s"
  "emitted (handleOutput opts now b s) = emitted s"
  "nextId (handleOutput opts now b s) = nextId s"
  "activeKeystroke (handleOutput opts now b s) = activeKeystroke s"
  "activeTurn (handleOutput opts now b s) = activeTurn s"
  "clock (handleOutput opts now b s) = clock s"
  by (simp_all add: handleOutput_def Let_def split: option.splits)

lemma endSession_fields [simp]:
  "turnIndex (endSession s) = turnIndex s"
  "nextId (endSession s) = nextId s"
  "heap (endSession s) = heap s"
  "activeKeystroke (endSession s) = None"
  "activeTurn (endSession s) = None"
  by (simp_all add: endSession_def Let_def split: option.splits)

lemma fire_fields [simp]:
  "turnIndex (fire c s) = turnIndex s"
  "nextId (fire c s) = nextId s"
  "heap (fire c s) = heap s"
  "clock (fire c s) = clock s"
  by (simp_all add: fire_def split: callback.splits option.splits)

lemma timerFires_fields [simp]:
  "turnIndex (timerFires h s) = turnIndex s"
  "nextId (timerFires h s) = nextId s"
  "heap (timerFires h s) = heap s"
  by (simp_all add: timerFires_def split: option.splits)

text \<open>An induction rule for the event loop that hides the timer chosen.\<close>

lemma run_due_induct [consumes 1, case_names clock timers fire]:
  assumes "P s"
    and "\<And>s c. P s \<Longrightarrow> P (s\<lparr> clock := c \<rparr>)"
    and "\<And>s h. P s \<Longrightarrow> P (s\<lparr> timers := filter (\<lambda>u. handle u \<noteq> h) (timers s) \<rparr>)"
    and "\<And>s c. P s \<Longrightarrow> P (fire c s)"
  shows "P (run_due target s)"
  using assms(1)
proof (induction target s rule: run_due.induct)
  case (1 target s)
  show ?case
  proof (cases "earliest (filter (\<lambda>t. due t \<le> target) (timers s))")
    case None
    then show ?thesis using "1.prems" assms(2) by (subst run_due.simps) simp
  next
    case (Some t)
    have "P (s\<lparr> clock := max (clock s) (due t) \<rparr>)"
      using "1.prems" by (rule assms(2))
    then have "P (s\<lparr> clock := max (clock s) (due t),
                      timers := filter (\<lambda>u. handle u \<noteq> handle t) (timers s) \<rparr>)"
      using assms(3) [of "s\<lparr> clock := max (clock s) (due t) \<rparr>" "handle t"] by simp
    then have "P (fire (cb t) (s\<lparr> clock := max (clock s) (due t),
                   timers := filter (\<lambda>u. handle u \<noteq> handle t) (timers s) \<rparr>))"
      by (rule assms(4))
    from "1.IH" [OF Some this] Some show ?thesis by (subst run_due.simps) simp
  qed
qed

subsection \<open>Turn indices\<close>

text \<open>The turn events among the calls made, in the order of the calls.\<close>

fun turnsOf :: "emit list \<Rightarrow> TurnEvent list" where
  "turnsOf [] = []"
| "turnsOf (OnTurn t # es) = t # turnsOf es"
| "turnsOf (OnInteraction i # es) = turnsOf es"

lemma turnsOf_append [simp]: "turnsOf (xs @ ys) = turnsOf xs @ turnsOf ys"
  by (induction xs rule: turnsOf.induct) auto

definition dense :: "tracker \<Rightarrow> bool" where
  "dense s \<longleftrightarrow> map index (turnsOf (emitted s)) = [1 ..< Suc (turnIndex s)]"

lemma dense_finalize: "dense s \<Longrightarrow> dense (finalize r reason s)"
  by (simp add: dense_def emitted_finalize split: option.splits)

lemma dense_beginTurn: "dense s \<Longrightarrow> dense (beginTurn opts src now s)"
  by (simp add: dense_def emitted_beginTurn split: option.splits)

lemma dense_keystrokeInput: "dense s \<Longrightarrow> dense (keystrokeInput opts now n s)"
  by (simp add: dense_def)

lemma dense_handleInput:
  assumes "dense s"
  shows "dense (handleInput opts now data n s)"
proof (cases "turnDetection opts = Enter \<and> bufferContainsEnter data")
  case True
  have "dense (beginTurn opts Enter now (keystrokeInput opts now n s))"
    using assms by (intro dense_beginTurn dense_keystrokeInput)
  then show ?thesis
    using True by (simp add: dense_def emitted_handleInput turnIndex_handleInput del: upt_Suc)
next
  case False
  then show ?thesis
    using assms by (auto simp: dense_def emitted_handleInput turnIndex_handleInput simp del: upt_Suc)
qed

lemma dense_handleOutput: "dense s \<Longrightarrow> dense (handleOutput opts now b s)"
  by (simp add: dense_def)

lemma dense_endSession: "dense s \<Longrightarrow> dense (endSession s)"
  by (auto simp: dense_def endSession_def Let_def emitted_finalize split: option.splits)

lemma dense_fire: "dense s \<Longrightarrow> dense (fire c s)"
  by (auto simp: fire_def dense_finalize split: callback.splits option.splits)

lemma dense_update [simp]:
  "dense (s\<lparr> timers := x \<rparr>) = dense s" "dense (s\<lparr> clock := y \<rparr>) = dense s"
  by (simp_all add: dense_def)

lemma dense_timerFires: "dense s \<Longrightarrow> dense (timerFires h s)"
  by (auto simp: timerFires_def intro!: dense_fire split: option.splits)

lemma dense_run_due: "dense s \<Longrightarrow> dense (run_due target s)"
  by (induction rule: run_due_induct) (simp_all add: dense_fire)

lemma dense_step: "dense s \<Longrightarrow> dense (step opts e s)"
  by (cases e) (simp_all add: dense_handleInput dense_handleOutput markTurn_def dense_beginTurn
      dense_endSession dense_timerFires dense_run_due)

lemma dense_run: "dense s \<Longrightarrow> dense (run opts es s)"
  by (induction es arbitrary: s) (simp_all add: run_def dense_step)

lemma dense_init: "dense init"
  by (simp add: dense_def init_def)

text \<open>The scenario of the tracker's third test: two turns begun without any output.\<close>

definition testOpts :: InteractionTrackerOptions where
  "testOpts = \<lparr> burstIdleMs = 30, interactionTimeoutMs = 50, turnDetection = Enter \<rparr>"

definition overlapRun :: "event list" where
  "overlapRun = [HandleInput 0 [CHR 0x0D] 1, HandleInput 10 [CHR 0x0D] 1, AdvanceTimers 200]"

text \<open>
  C7: whatever the events (input chunks with or without a line terminator, marked turns,
  output, timers, the end of the session), the indices of the turn events emitted are
  1, 2, 3, ... up to their number, in the order of emission.
\<close>

theorem C7_turn_index_density:
  "map index (turnsOf (emitted (run opts es init)))
     = [1 ..< Suc (length (turnsOf (emitted (run opts es init))))]"
proof -
  have d: "map index (turnsOf (emitted (run opts es init))) = [1 ..< Suc (turnIndex (run opts es init))]"
    using dense_run [OF dense_init, of opts es] by (simp add: dense_def)
  then have "length (turnsOf (emitted (run opts es init))) = turnIndex (run opts es init)"
    by (metis length_map length_upt diff_Suc_1)
  with d show ?thesis by simp
qed

theorem C7_turn_index_density_witness: "map index (turnsOf (emitted (run testOpts overlapRun init))) = [1, 2]"
proof -
  have len: "length (turnsOf (emitted (run testOpts overlapRun init))) = 2" by code_simp
  have "[1 ..< Suc 2] = [1, 2::nat]" by code_simp
  then show ?thesis using C7_turn_index_density [of testOpts overlapRun] by (simp only: len)
qed

subsection \<open>A turn is announced before it ends the turn before\<close>

text \<open>
  \<open>overlapAfterTurn xs\<close>: every interaction of \<open>xs\<close> that ended by overlap is a turn
  interaction, and the call just before it is the turn event whose index is one more
  than the turn index of the interaction.
\<close>

definition overlapAfterTurn :: "emit list \<Rightarrow> bool" where
  "overlapAfterTurn xs \<longleftrightarrow>
     (\<forall>j i. j < length xs \<and> xs ! j = OnInteraction i \<and> endReason i = Overlap \<longrightarrow>
        0 < j \<and> i_kind i = Turn
        \<and> (\<exists>t n. xs ! (j - 1) = OnTurn t \<and> i_turnIndex i = Some n \<and> index t = n + 1))"

lemma oat_snoc:
  assumes "overlapAfterTurn xs" and "\<And>i. e = OnInteraction i \<Longrightarrow> endReason i \<noteq> Overlap"
  shows "overlapAfterTurn (xs @ [e])"
  unfolding overlapAfterTurn_def
proof (intro allI impI)
  fix j i
  assume a: "j < length (xs @ [e]) \<and> (xs @ [e]) ! j = OnInteraction i \<and> endReason i = Overlap"
  then have "j < length xs" using assms(2) by (cases "j = length xs") auto
  then show "0 < j \<and> i_kind i = Turn
        \<and> (\<exists>t n. (xs @ [e]) ! (j - 1) = OnTurn t \<and> i_turnIndex i = Some n \<and> index t = n + 1)"
    using a assms(1) by (auto simp: overlapAfterTurn_def nth_append)
qed

lemma oat_snoc_pair:
  assumes "overlapAfterTurn xs" and "i_kind i = Turn" and "i_turnIndex i = Some n" and "index t = n + 1"
  shows "overlapAfterTurn (xs @ [OnTurn t, OnInteraction i])"
  unfolding overlapAfterTurn_def
proof (intro allI impI)
  fix j i'
  assume a: "j < length (xs @ [OnTurn t, OnInteraction i])
             \<and> (xs @ [OnTurn t, OnInteraction i]) ! j = OnInteraction i' \<and> endReason i' = Overlap"
  consider "j < length xs" | "j = length xs" | "j = Suc (length xs)"
    using a by (auto simp: less_Suc_eq)
  then show "0 < j \<and> i_kind i' = Turn
        \<and> (\<exists>t' n. (xs @ [OnTurn t, OnInteraction i]) ! (j - 1) = OnTurn t'
                  \<and> i_turnIndex i' = Some n \<and> index t' = n + 1)"
  proof cases
    case 1
    then show ?thesis using a assms(1) by (auto simp: overlapAfterTurn_def nth_append)
  next
    case 2
    then show ?thesis using a by (simp add: nth_append)
  next
    case 3
    then show ?thesis using a assms(2-4) by (simp add: nth_append)
  qed
qed

definition orderOk :: "tracker \<Rightarrow> bool" where
  "orderOk s \<longleftrightarrow> overlapAfterTurn (emitted s)"

lemma orderOk_update [simp]:
  "orderOk (s\<lparr> timers := x \<rparr>) = orderOk s" "orderOk (s\<lparr> clock := y \<rparr>) = orderOk s"
  "orderOk (s\<lparr> activeKeystroke := k \<rparr>) = orderOk s" "orderOk (s\<lparr> activeTurn := a \<rparr>) = orderOk s"
  by (simp_all add: orderOk_def)

lemma orderOk_finalize: "orderOk s \<Longrightarrow> reason \<noteq> Overlap \<Longrightarrow> orderOk (finalize r reason s)"
  by (auto simp: orderOk_def emitted_finalize intro!: oat_snoc split: option.splits)

lemma orderOk_beginTurn:
  assumes "orderOk s" and "trackerOk s"
  shows "orderOk (beginTurn opts src now s)"
proof (cases "activeTurn s")
  case None
  then show ?thesis using assms(1) by (auto simp: orderOk_def emitted_beginTurn intro!: oat_snoc)
next
  case (Some r)
  then obtain ob where ob: "heap s r = Some ob" "it_kind ob = Turn" "it_turnIndex ob = Some (turnIndex s)"
    using assms(2) by (auto simp: trackerOk_def slotsOk_def)
  have "overlapAfterTurn (emitted s @ [OnTurn \<lparr> index = turnIndex s + 1, tMs = now, source = src \<rparr>,
                                      OnInteraction (mkInteraction ob Overlap)])"
    using assms(1) ob by (intro oat_snoc_pair [where n = "turnIndex s"]) (simp_all add: orderOk_def)
  then show ?thesis using Some ob by (simp add: orderOk_def emitted_beginTurn)
qed

lemma orderOk_handleInput:
  assumes "orderOk s" and "trackerOk s"
  shows "orderOk (handleInput opts now data n s)"
proof -
  have "orderOk (beginTurn opts Enter now (keystrokeInput opts now n s))"
    using assms by (intro orderOk_beginTurn wf_keystrokeInput) (simp_all add: orderOk_def)
  then show ?thesis using assms(1) by (auto simp: orderOk_def emitted_handleInput)
qed

lemma orderOk_handleOutput: "orderOk s \<Longrightarrow> orderOk (handleOutput opts now b s)"
  by (simp add: orderOk_def)

lemma orderOk_endSession: "orderOk s \<Longrightarrow> orderOk (endSession s)"
  by (auto simp: endSession_def Let_def intro!: orderOk_finalize split: option.splits)

lemma orderOk_fire: "orderOk s \<Longrightarrow> orderOk (fire c s)"
  by (auto simp: fire_def intro!: orderOk_finalize split: callback.splits option.splits)

lemma orderOk_timerFires: "orderOk s \<Longrightarrow> orderOk (timerFires h s)"
  by (auto simp: timerFires_def intro!: orderOk_fire split: option.splits)

lemma orderOk_run_due: "orderOk s \<Longrightarrow> orderOk (run_due target s)"
  by (induction rule: run_due_induct) (simp_all add: orderOk_fire)

lemma orderOk_step: "orderOk s \<Longrightarrow> trackerOk s \<Longrightarrow> orderOk (step opts e s)"
  by (cases e) (simp_all add: orderOk_handleInput orderOk_handleOutput markTurn_def orderOk_beginTurn
      orderOk_endSession orderOk_timerFires orderOk_run_due)

lemma orderOk_run: "orderOk s \<Longrightarrow> trackerOk s \<Longrightarrow> orderOk (run opts es s)"
  by (induction es arbitrary: s) (simp_all add: run_def orderOk_step wf_step)

definition overlappedTurn :: Interaction where
  "overlappedTurn = \<lparr> i_id = 2, i_kind = Turn, i_t0Ms = 0, t1Ms = None, t2Ms = None,
                      i_inputBytes = 1, i_outputBytes = 0, i_turnIndex = Some 1,
                      endReason = Overlap \<rparr>"

text \<open>
  C4: in every run, a turn interaction that ends by overlap is handed to \<open>onInteraction\<close>
  directly after \<open>onTurn\<close> was called for the next turn: the call before it is the turn
  event of index N, where N - 1 is the turn index of the interaction.
\<close>

theorem C4_turn_before_overlap:
  assumes "j < length (emitted (run opts es init))"
    and "emitted (run opts es init) ! j = OnInteraction i"
    and "endReason i = Overlap"
  shows "0 < j \<and> i_kind i = Turn
         \<and> (\<exists>t n. emitted (run opts es init) ! (j - 1) = OnTurn t
                  \<and> i_turnIndex i = Some n \<and> index t = n + 1)"
proof -
  have "orderOk init" by (simp add: orderOk_def overlapAfterTurn_def init_def)
  then have "overlapAfterTurn (emitted (run opts es init))"
    using orderOk_run [OF _ wf_init, of opts es] by (simp add: orderOk_def)
  then show ?thesis using assms unfolding overlapAfterTurn_def by blast
qed

theorem C4_turn_before_overlap_witness:
  "emitted (run testOpts overlapRun init) ! 2 = OnInteraction overlappedTurn
   \<and> endReason overlappedTurn = Overlap
   \<and> (\<exists>t n. emitted (run testOpts overlapRun init) ! (2 - 1) = OnTurn t
              \<and> i_turnIndex overlappedTurn = Some n \<and> index t = n + 1)"
proof -
  have h1: "2 < length (emitted (run testOpts overlapRun init))" by code_simp
  have h2: "emitted (run testOpts overlapRun init) ! 2 = OnInteraction overlappedTurn" by code_simp
  have h3: "endReason overlappedTurn = Overlap" by (simp add: overlappedTurn_def)
  from C4_turn_before_overlap [OF h1 h2 h3] h2 h3 show ?thesis by simp
qed

subsection \<open>Output seen by an interaction\<close>

definition seen :: "tracker \<Rightarrow> nat \<Rightarrow> bool" where
  "seen s r \<longleftrightarrow> (\<exists>ob. heap s r = Some ob \<and> firstOutputAtMs ob \<noteq> None)"

lemma seen_update [simp]:
  "seen (s\<lparr> timers := x \<rparr>) = seen s" "seen (s\<lparr> clock := y \<rparr>) = seen s"
  "seen (s\<lparr> activeKeystroke := k \<rparr>) = seen s" "seen (s\<lparr> activeTurn := a \<rparr>) = seen s"
  by (simp_all add: seen_def fun_eq_iff)

lemma seen_heap_eq: "heap s' = heap s \<Longrightarrow> seen s' = seen s"
  by (simp add: seen_def fun_eq_iff)

lemma seen_addInput [simp]: "seen (addInput slot n s) = seen s"
  by (auto simp: seen_def fun_eq_iff heap_addInput split: option.splits)

lemma seen_beginTurn: "trackerOk s \<Longrightarrow> seen (beginTurn opts src now s) = seen s"
  using wf_heap_fresh [of s] by (auto simp: seen_def fun_eq_iff heap_beginTurn)

lemma seen_keystrokeInput: "trackerOk s \<Longrightarrow> seen (keystrokeInput opts now n s) = seen s"
  using wf_heap_fresh [of s]
  by (auto simp: keystrokeInput_def Let_def split_beta seen_def fun_eq_iff heap_startInteraction)

lemma seen_handleInput: "trackerOk s \<Longrightarrow> seen (handleInput opts now data n s) = seen s"
  by (simp add: handleInput_def Let_def seen_beginTurn seen_keystrokeInput wf_keystrokeInput)

lemma seen_observeOutput:
  "seen (observeOutput opts r now b s) r' \<longleftrightarrow> seen s r' \<or> (r' = r \<and> heap s r \<noteq> None)"
  by (auto simp: seen_def heap_observeOutput split: option.splits if_splits)

lemma seen_handleOutput:
  assumes "trackerOk s"
  shows "seen (handleOutput opts now b s) r \<longleftrightarrow> seen s r \<or> inSlot s r"
proof -
  have dom: "\<And>x. inSlot s x \<Longrightarrow> heap s x \<noteq> None"
    using assms by (auto simp: trackerOk_def slotsOk_def inSlot_def)
  have keep: "\<And>x k. heap s x \<noteq> None \<Longrightarrow> heap (observeOutput opts k now b s) x \<noteq> None"
    by (auto simp: heap_observeOutput split: option.splits)
  show ?thesis
    using dom [of r] keep
    by (cases "activeKeystroke s"; cases "activeTurn s")
       (auto simp: handleOutput_def Let_def seen_observeOutput inSlot_def)
qed

lemma heap_run_due [simp]: "heap (run_due target s) = heap s"
  by (rule run_due_induct [where P = "\<lambda>s'. heap s' = heap s"]) simp_all

lemma seen_same_heap [simp]:
  "seen (endSession s) = seen s" "seen (timerFires h s) = seen s"
  "seen (run_due target s) = seen s"
  by (rule seen_heap_eq, simp)+

lemma seen_step_other:
  assumes "trackerOk s" and "\<And>now b. e \<noteq> HandleOutput now b"
  shows "seen (step opts e s) = seen s"
  using assms
  by (cases e) (auto simp: seen_handleInput markTurn_def seen_beginTurn)

text \<open>
  \<open>observedBy opts es r\<close>: in the run of \<open>es\<close> some output event arrived while the
  interaction \<open>r\<close> was in one of the two slots.
\<close>

definition observedBy :: "InteractionTrackerOptions \<Rightarrow> event list \<Rightarrow> nat \<Rightarrow> bool" where
  "observedBy opts es r \<longleftrightarrow>
     (\<exists>es1 now b es2. es = es1 @ HandleOutput now b # es2 \<and> inSlot (run opts es1 init) r)"

lemma run_snoc: "run opts (es @ [e]) s = step opts e (run opts es s)"
  by (simp add: run_def)


lemma observedBy_Nil [simp]: "\<not> observedBy opts [] r"
  by (simp add: observedBy_def)

lemma observedBy_snoc:
  "observedBy opts (es @ [e]) r \<longleftrightarrow>
     observedBy opts es r \<or> ((\<exists>now b. e = HandleOutput now b) \<and> inSlot (run opts es init) r)"
proof
  assume "observedBy opts (es @ [e]) r"
  then obtain es1 now b es2 where eq: "es @ [e] = es1 @ HandleOutput now b # es2"
      and slot: "inSlot (run opts es1 init) r"
    by (auto simp: observedBy_def)
  show "observedBy opts es r \<or> ((\<exists>now b. e = HandleOutput now b) \<and> inSlot (run opts es init) r)"
  proof (cases es2 rule: rev_cases)
    case Nil
    with eq have "es = es1" "e = HandleOutput now b" by auto
    with slot show ?thesis by auto
  next
    case (snoc es2' e')
    with eq have "es = es1 @ HandleOutput now b # es2'"
      by (metis append_Cons append_assoc butlast_snoc)
    with slot have "observedBy opts es r" unfolding observedBy_def by blast
    then show ?thesis ..
  qed
next
  assume "observedBy opts es r \<or> ((\<exists>now b. e = HandleOutput now b) \<and> inSlot (run opts es init) r)"
  then show "observedBy opts (es @ [e]) r"
  proof
    assume "observedBy opts es r"
    then obtain es1 now b es2 where "es = es1 @ HandleOutput now b # es2"
        and "inSlot (run opts es1 init) r"
      by (auto simp: observedBy_def)
    then have "es @ [e] = es1 @ HandleOutput now b # (es2 @ [e]) \<and> inSlot (run opts es1 init) r"
      by simp
    then show ?thesis unfolding observedBy_def by blast
  next
    assume "(\<exists>now b. e = HandleOutput now b) \<and> inSlot (run opts es init) r"
    then obtain now b where "es @ [e] = es @ HandleOutput now b # [] \<and> inSlot (run opts es init) r"
      by auto
    then show ?thesis unfolding observedBy_def by blast
  qed
qed

lemma seen_iff_observed: "seen (run opts es init) r \<longleftrightarrow> observedBy opts es r"
proof (induction es arbitrary: r rule: rev_induct)
  case Nil
  show ?case by (simp add: run_def seen_def init_def)
next
  case (snoc e es)
  have ok: "trackerOk (run opts es init)" by (rule wf_run)
  show ?case
  proof (cases "\<exists>now b. e = HandleOutput now b")
    case True
    then obtain now b where e: "e = HandleOutput now b" by blast
    show ?thesis
      using snoc.IH [of r] ok by (simp add: run_snoc e observedBy_snoc seen_handleOutput)
  next
    case False
    then have "seen (step opts e (run opts es init)) = seen (run opts es init)"
      using ok by (intro seen_step_other) auto
    then show ?thesis
      using snoc.IH [of r] False by (simp add: run_snoc observedBy_snoc)
  qed
qed

lemma emitted_t1_iff_observed:
  assumes "OnInteraction i \<in> set (emitted (run opts es init))"
  shows "t1Ms i \<noteq> None \<longleftrightarrow> observedBy opts es (i_id i)"
proof -
  have ok: "trackerOk (run opts es init)" by (rule wf_run)
  then obtain ob where ob: "heap (run opts es init) (i_id i) = Some ob"
      and i: "i = mkInteraction ob (endReason i)"
    using assms by (auto simp: trackerOk_def emittedOk_def)
  have "t1Ms i \<noteq> None \<longleftrightarrow> firstOutputAtMs ob \<noteq> None"
    by (subst i) simp
  also have "\<dots> \<longleftrightarrow> seen (run opts es init) (i_id i)"
    using ob by (simp add: seen_def)
  finally show ?thesis by (simp add: seen_iff_observed)
qed

text \<open>The scenario of the tracker's second test: a turn that is answered.\<close>

definition outputSeenRun :: "event list" where
  "outputSeenRun = [HandleInput 0 (''hi'' @ [CHR 0x0D]) 3, HandleOutput 12 10, AdvanceTimers 200]"

definition answeredTurn :: Interaction where
  "answeredTurn = \<lparr> i_id = 2, i_kind = Turn, i_t0Ms = 0, t1Ms = Some 12, t2Ms = Some 12,
                     i_inputBytes = 3, i_outputBytes = 10, i_turnIndex = Some 1,
                     endReason = BurstIdle \<rparr>"


subsection \<open>Readings of the clock\<close>

fun nows :: "event list \<Rightarrow> int list" where
  "nows [] = []"
| "nows (HandleInput now data n # es) = now # nows es"
| "nows (HandleOutput now b # es) = now # nows es"
| "nows (MarkTurn now src # es) = now # nows es"
| "nows (EndSession # es) = nows es"
| "nows (TimerFires h # es) = nows es"
| "nows (AdvanceTimers d # es) = nows es"

definition timeOk :: "int \<Rightarrow> tracker \<Rightarrow> bool" where
  "timeOk t s \<longleftrightarrow>
     (\<forall>r ob. heap s r = Some ob \<longrightarrow>
        it_t0Ms ob \<le> t
        \<and> (\<forall>a. firstOutputAtMs ob = Some a \<longrightarrow> it_t0Ms ob \<le> a \<and> a \<le> t)
        \<and> (\<forall>b. lastOutputAtMs ob = Some b \<longrightarrow>
               b \<le> t \<and> (\<forall>a. firstOutputAtMs ob = Some a \<longrightarrow> a \<le> b)))"

lemma timeOk_mono: "timeOk t s \<Longrightarrow> t \<le> t' \<Longrightarrow> timeOk t' s"
  unfolding timeOk_def by (meson order_trans)

lemma timeOk_heap_eq: "heap s' = heap s \<Longrightarrow> timeOk t s' = timeOk t s"
  by (simp add: timeOk_def)

lemma timeOk_same_heap [simp]:
  "timeOk t (endSession s) = timeOk t s" "timeOk t (timerFires h s) = timeOk t s"
  "timeOk t (run_due target s) = timeOk t s"
  "timeOk t (s\<lparr> activeKeystroke := k \<rparr>) = timeOk t s"
  by (rule timeOk_heap_eq, simp)+

lemma timeOk_addInput: "timeOk t s \<Longrightarrow> timeOk t (addInput slot n s)"
  by (auto simp: timeOk_def heap_addInput split: option.splits if_splits)

lemma timeOk_beginTurn: "timeOk now s \<Longrightarrow> timeOk now (beginTurn opts src now s)"
  by (auto simp: timeOk_def heap_beginTurn split: if_splits)

lemma timeOk_keystrokeInput: "timeOk now s \<Longrightarrow> timeOk now (keystrokeInput opts now n s)"
proof (cases "activeKeystroke s = None")
  case True
  assume "timeOk now s"
  then have "timeOk now ((snd (startInteraction opts Keystroke now None s))\<lparr> activeKeystroke := Some (nextId s) \<rparr>)"
    by (auto simp: timeOk_def heap_startInteraction split: if_splits)
  then show ?thesis using True by (simp add: keystrokeInput_def Let_def split_beta timeOk_addInput)
next
  case False
  assume "timeOk now s"
  then show ?thesis using False by (auto simp: keystrokeInput_def Let_def timeOk_addInput)
qed

lemma timeOk_handleInput: "timeOk now s \<Longrightarrow> timeOk now (handleInput opts now data n s)"
  by (simp add: handleInput_def Let_def timeOk_addInput timeOk_beginTurn timeOk_keystrokeInput)

lemma timeOk_observeOutput: "timeOk now s \<Longrightarrow> timeOk now (observeOutput opts r now b s)"
  unfolding timeOk_def
  by (auto simp: heap_observeOutput split: option.splits if_splits)

lemma timeOk_handleOutput: "timeOk now s \<Longrightarrow> timeOk now (handleOutput opts now b s)"
  by (auto simp: handleOutput_def Let_def timeOk_observeOutput split: option.splits)

lemma timeOk_run:
  "timeOk t s \<Longrightarrow> sorted (nows es) \<Longrightarrow> \<forall>x \<in> set (nows es). t \<le> x \<Longrightarrow>
     \<exists>t'. timeOk t' (run opts es s)"
proof (induction es arbitrary: t s)
  case Nil
  then show ?case by (auto simp: run_def)
next
  case (Cons e es)
  show ?case
  proof (cases e)
    case (HandleInput now data n)
    have "timeOk now (step opts e s)"
      using Cons.prems HandleInput by (auto intro!: timeOk_handleInput timeOk_mono [of t s now])
    from Cons.IH [OF this] Cons.prems HandleInput show ?thesis by (simp add: run_def)
  next
    case (HandleOutput now b)
    have "timeOk now (step opts e s)"
      using Cons.prems HandleOutput by (auto intro!: timeOk_handleOutput timeOk_mono [of t s now])
    from Cons.IH [OF this] Cons.prems HandleOutput show ?thesis by (simp add: run_def)
  next
    case (MarkTurn now src)
    have "timeOk now (step opts e s)"
      using Cons.prems MarkTurn
      by (auto simp: markTurn_def intro!: timeOk_beginTurn timeOk_mono [of t s now])
    from Cons.IH [OF this] Cons.prems MarkTurn show ?thesis by (simp add: run_def)
  next
    case EndSession
    have "timeOk t (step opts e s)" using Cons.prems EndSession by simp
    from Cons.IH [OF this] Cons.prems EndSession show ?thesis by (simp add: run_def)
  next
    case (TimerFires h)
    have "timeOk t (step opts e s)" using Cons.prems TimerFires by simp
    from Cons.IH [OF this] Cons.prems TimerFires show ?thesis by (simp add: run_def)
  next
    case (AdvanceTimers d)
    have "timeOk t (step opts e s)" using Cons.prems AdvanceTimers by simp
    from Cons.IH [OF this] Cons.prems AdvanceTimers show ?thesis by (simp add: run_def)
  qed
qed

lemma timeOk_run_init:
  assumes "sorted (nows es)"
  shows "\<exists>t. timeOk t (run opts es init)"
proof (cases "nows es")
  case Nil
  have "timeOk 0 init" by (simp add: timeOk_def init_def)
  from timeOk_run [OF this assms] Nil show ?thesis by simp
next
  case (Cons x xs)
  have "timeOk x init" by (simp add: timeOk_def init_def)
  moreover have "\<forall>y \<in> set (nows es). x \<le> y" using assms Cons by auto
  ultimately show ?thesis using timeOk_run assms by blast
qed

text \<open>The bytes that the output events of a run carry, in total.\<close>

fun outputBytesIn :: "event list \<Rightarrow> nat" where
  "outputBytesIn [] = 0"
| "outputBytesIn (HandleOutput now b # es) = b + outputBytesIn es"
| "outputBytesIn (e # es) = outputBytesIn es"

definition zeroRun :: "event list" where
  "zeroRun = [HandleInput 0 ''a'' 1, HandleOutput 5 0, EndSession]"

text \<open>
  C6, as stated, fails in its last part: an output event of zero bytes sets both output
  times, so the interaction carries \<open>t1Ms\<close> and \<open>t2Ms\<close> although no output byte was
  observed.
\<close>

theorem C6_zero_byte_output_counterexample:
  "sorted (nows zeroRun) \<and> outputBytesIn zeroRun = 0
   \<and> emitted (run testOpts zeroRun init) =
       [OnInteraction \<lparr> i_id = 1, i_kind = Keystroke, i_t0Ms = 0, t1Ms = Some 5, t2Ms = Some 5,
                         i_inputBytes = 1, i_outputBytes = 0, i_turnIndex = None,
                         endReason = SessionEnd \<rparr>]"
  by code_simp

text \<open>
  C6, amended: when the readings of the clock never decrease, every interaction handed to
  \<open>onInteraction\<close> that carries both \<open>t1Ms\<close> and \<open>t2Ms\<close> has \<open>0 \<le> t1Ms \<le> t2Ms\<close>;
  it carries \<open>t1Ms\<close> exactly when it carries \<open>t2Ms\<close>, and exactly when some output event
  (of any length, also of zero bytes) arrived while it was active; so it carries both
  whenever it has counted at least one output byte.
\<close>

theorem C6_latency_ordering:
  assumes "sorted (nows es)"
    and "OnInteraction i \<in> set (emitted (run opts es init))"
  shows "(\<forall>a b. t1Ms i = Some a \<and> t2Ms i = Some b \<longrightarrow> 0 \<le> a \<and> a \<le> b)
         \<and> (t1Ms i \<noteq> None \<longleftrightarrow> t2Ms i \<noteq> None)
         \<and> (t1Ms i \<noteq> None \<longleftrightarrow> observedBy opts es (i_id i))
         \<and> (0 < i_outputBytes i \<longrightarrow> t1Ms i \<noteq> None)"
proof -
  have ok: "trackerOk (run opts es init)" by (rule wf_run)
  then obtain ob where ob: "heap (run opts es init) (i_id i) = Some ob"
      and i: "i = mkInteraction ob (endReason i)"
    using assms(2) by (auto simp: trackerOk_def emittedOk_def)
  obtain t where t: "timeOk t (run opts es init)"
    using timeOk_run_init [OF assms(1)] by blast
  have o1: "firstOutputAtMs ob = None \<longleftrightarrow> lastOutputAtMs ob = None"
    and o2: "firstOutputAtMs ob = None \<longrightarrow> it_outputBytes ob = 0"
    using ok ob by (auto simp: trackerOk_def objOk_def)
  have o3: "\<forall>a b. firstOutputAtMs ob = Some a \<and> lastOutputAtMs ob = Some b \<longrightarrow>
              it_t0Ms ob \<le> a \<and> a \<le> b"
    using t ob by (auto simp: timeOk_def)
  have "(\<forall>a b. t1Ms i = Some a \<and> t2Ms i = Some b \<longrightarrow> 0 \<le> a \<and> a \<le> b)"
    using o3 by (subst (1 2) i) auto
  moreover have "t1Ms i \<noteq> None \<longleftrightarrow> t2Ms i \<noteq> None"
    using o1 by (subst (1 2) i) auto
  moreover have "t1Ms i \<noteq> None \<longleftrightarrow> observedBy opts es (i_id i)"
    using assms(2) by (rule emitted_t1_iff_observed)
  moreover have "0 < i_outputBytes i \<longrightarrow> t1Ms i \<noteq> None"
    using o2 by (subst (1 2) i) auto
  ultimately show ?thesis by blast
qed

theorem C6_latency_ordering_witness:
  "sorted (nows outputSeenRun)
   \<and> OnInteraction answeredTurn \<in> set (emitted (run testOpts outputSeenRun init))
   \<and> t1Ms answeredTurn = Some 12 \<and> t2Ms answeredTurn = Some 12
   \<and> observedBy testOpts outputSeenRun (i_id answeredTurn)"
proof -
  have h1: "sorted (nows outputSeenRun)" by code_simp
  have h2: "OnInteraction answeredTurn \<in> set (emitted (run testOpts outputSeenRun init))"
    by code_simp
  from C6_latency_ordering [OF h1 h2] h1 h2 show ?thesis
    by (simp add: answeredTurn_def)
qed

subsection \<open>The content of input and output\<close>

text \<open>
  Two events have the same shape when they are the same call with the same arguments,
  except that two input chunks may differ in their bytes as long as they agree on the
  time, on the byte length and on whether a line terminator is present.
\<close>

fun sameShape :: "event \<Rightarrow> event \<Rightarrow> bool" where
  "sameShape (HandleInput now1 data1 n1) (HandleInput now2 data2 n2) \<longleftrightarrow>
     now1 = now2 \<and> n1 = n2 \<and> bufferContainsEnter data1 = bufferContainsEnter data2"
| "sameShape e1 e2 \<longleftrightarrow> e1 = e2"

lemma step_sameShape: "sameShape e1 e2 \<Longrightarrow> step opts e1 s = step opts e2 s"
  by (cases e1; cases e2) (simp_all add: handleInput_def)

lemma run_sameShape: "list_all2 sameShape es1 es2 \<Longrightarrow> run opts es1 s = run opts es2 s"
proof (induction es1 es2 arbitrary: s rule: list_all2_induct)
  case Nil
  show ?case by simp
next
  case (Cons e1 es1 e2 es2)
  then show ?case by (simp add: run_def step_sameShape [of e1 e2])
qed

text \<open>The wiring of the child's output in \<open>runSession\<close>: only the length reaches the tracker.\<close>

definition onData :: "int \<Rightarrow> string \<Rightarrow> event" where
  "onData now data = HandleOutput now (length data)"

subsection \<open>Serialization\<close>

text \<open>
  \<open>JSON.stringify\<close> on the records emitted, as the tests and \<open>writeJson\<close> apply it (here
  without indentation): the properties in the order of the object literal, a property
  whose value is \<open>undefined\<close> left out, numbers in decimal.
\<close>

fun interactionsOf :: "emit list \<Rightarrow> Interaction list" where
  "interactionsOf [] = []"
| "interactionsOf (OnTurn t # es) = interactionsOf es"
| "interactionsOf (OnInteraction i # es) = i # interactionsOf es"

definition quoted :: "string \<Rightarrow> string" where
  "quoted str = CHR 0x22 # str @ [CHR 0x22]"

fun showNat :: "nat \<Rightarrow> string" where
  "showNat n = (if n < 10 then [char_of (48 + n)] else showNat (n div 10) @ [char_of (48 + n mod 10)])"

definition showInt :: "int \<Rightarrow> string" where
  "showInt k = (if k < 0 then CHR ''-'' # showNat (nat (- k)) else showNat (nat k))"

fun joinWith :: "string \<Rightarrow> string list \<Rightarrow> string" where
  "joinWith sep [] = []"
| "joinWith sep [x] = x"
| "joinWith sep (x # y # ys) = x @ sep @ joinWith sep (y # ys)"

definition jsonProp :: "string \<Rightarrow> string \<Rightarrow> string list" where
  "jsonProp k v = [quoted k @ '':'' @ v]"

definition jsonOptProp :: "string \<Rightarrow> string option \<Rightarrow> string list" where
  "jsonOptProp k v = (case v of None \<Rightarrow> [] | Some x \<Rightarrow> jsonProp k x)"

definition jsonObject :: "string list \<Rightarrow> string" where
  "jsonObject props = ''{'' @ joinWith '','' props @ ''}''"

definition jsonArray :: "string list \<Rightarrow> string" where
  "jsonArray items = ''['' @ joinWith '','' items @ '']''"

fun kindName :: "Kind \<Rightarrow> string" where
  "kindName Keystroke = ''keystroke''"
| "kindName Turn = ''turn''"

fun endReasonName :: "EndReason \<Rightarrow> string" where
  "endReasonName BurstIdle = ''burstIdle''"
| "endReasonName Timeout = ''timeout''"
| "endReasonName SessionEnd = ''sessionEnd''"
| "endReasonName Overlap = ''overlap''"

fun modeName :: "TurnDetectionMode \<Rightarrow> string" where
  "modeName Enter = ''enter''"
| "modeName Hotkey = ''hotkey''"

definition jsonInteraction :: "Interaction \<Rightarrow> string" where
  "jsonInteraction i =
     jsonObject
       (jsonProp ''id'' (showNat (i_id i))
        @ jsonProp ''kind'' (quoted (kindName (i_kind i)))
        @ jsonProp ''t0Ms'' (showInt (i_t0Ms i))
        @ jsonOptProp ''t1Ms'' (map_option showInt (t1Ms i))
        @ jsonOptProp ''t2Ms'' (map_option showInt (t2Ms i))
        @ jsonProp ''inputBytes'' (showNat (i_inputBytes i))
        @ jsonProp ''outputBytes'' (showNat (i_outputBytes i))
        @ jsonOptProp ''turnIndex'' (map_option showNat (i_turnIndex i))
        @ jsonProp ''endReason'' (quoted (endReasonName (endReason i))))"

definition jsonTurnEvent :: "TurnEvent \<Rightarrow> string" where
  "jsonTurnEvent t =
     jsonObject
       (jsonProp ''index'' (showNat (index t))
        @ jsonProp ''tMs'' (showInt (tMs t))
        @ jsonProp ''source'' (quoted (modeName (source t))))"

definition stringifyEmitted :: "emit list \<Rightarrow> string" where
  "stringifyEmitted es =
     jsonObject
       (jsonProp ''turns'' (jsonArray (map jsonTurnEvent (turnsOf es)))
        @ jsonProp ''interactions'' (jsonArray (map jsonInteraction (interactionsOf es))))"

definition keystrokeWordRun :: "event list" where
  "keystrokeWordRun = [HandleInput 0 ''keystroke'' 9, EndSession]"

definition secretRun :: "event list" where
  "secretRun = [HandleInput 0 ''SECRET'' 6, HandleOutput 5 6, AdvanceTimers 31]"

definition publicRun :: "event list" where
  "publicRun = [HandleInput 0 ''public'' 6, HandleOutput 5 6, AdvanceTimers 31]"

text \<open>
  C1, as stated, fails in its last part: the serialized records can contain a substring
  of the input. The input \<open>keystroke\<close> occurs in the serialized interaction, whose
  \<open>kind\<close> is \<open>keystroke\<close> whatever was typed.
\<close>

theorem C1_input_substring_counterexample:
  "sublist ''keystroke'' (stringifyEmitted (emitted (run testOpts keystrokeWordRun init)))"
  by code_simp

text \<open>
  C1, amended: two event sequences that agree on times, byte lengths and the presence of a
  line terminator, and differ only in the bytes of the input chunks, make the tracker emit
  the same turn events and interactions, and so the same serialized records; the output
  of the child reaches the tracker as a length only. Hence no field of an emitted record
  depends on the content, and a substring of the input occurs in the serialized records
  only where the same records, serialized for any other content of that shape, contain
  it too.
\<close>

theorem C1_noninterference:
  assumes "list_all2 sameShape es1 es2" and "length data1 = length data2"
  shows "emitted (run opts es1 init) = emitted (run opts es2 init)
         \<and> stringifyEmitted (emitted (run opts es1 init))
             = stringifyEmitted (emitted (run opts es2 init))
         \<and> onData now data1 = onData now data2"
  using assms by (simp add: run_sameShape [of es1 es2] onData_def)

theorem C1_noninterference_witness:
  "list_all2 sameShape secretRun publicRun
   \<and> emitted (run testOpts secretRun init) = emitted (run testOpts publicRun init)
   \<and> onData 5 ''SECRET'' = onData 5 ''public''
   \<and> \<not> sublist ''SECRET'' (stringifyEmitted (emitted (run testOpts secretRun init)))"
proof -
  have h1: "list_all2 sameShape secretRun publicRun" by code_simp
  have h2: "length ''SECRET'' = length ''public''" by simp
  have h3: "\<not> sublist ''SECRET'' (stringifyEmitted (emitted (run testOpts secretRun init)))"
    by code_simp
  from C1_noninterference [OF h1 h2, of testOpts 5] h1 h3 show ?thesis by simp
qed

subsection \<open>Timer handles\<close>

lemma timers_clearIfSet:
  "timers (clearIfSet x s) =
     (case x of None \<Rightarrow> timers s | Some h \<Rightarrow> filter (\<lambda>t. handle t \<noteq> h) (timers s))"
  by (simp add: clearIfSet_def clearTimeout_def split: option.splits)

lemma timers_finalize:
  "timers (finalize r reason s) =
     (case heap s r of
        None \<Rightarrow> timers s
      | Some ob \<Rightarrow> timers (clearIfSet (noOutputTimeout ob) (clearIfSet (idleTimer ob) s)))"
  by (simp add: finalize_def Let_def split: option.splits)

lemma timers_finalize_subset: "set (timers (finalize r reason s)) \<subseteq> set (timers s)"
  by (auto simp: timers_finalize timers_clearIfSet split: option.splits)

lemma timers_observeOutput_subset:
  "set (timers (observeOutput opts r now b s))
     \<subseteq> insert \<lparr> handle = nextHandle s, due = clock s + timerDelay (burstIdleMs opts), cb = IdleCb r \<rparr>
         (set (timers s))"
  by (auto simp: observeOutput_def Let_def setTimeout_def modify_def clearIfSet_def clearTimeout_def
        split: option.splits if_splits)

lemma nextHandle_observeOutput:
  "nextHandle (observeOutput opts r now b s) = (if heap s r = None then nextHandle s else nextHandle s + 1)"
  by (auto simp: observeOutput_def Let_def setTimeout_def modify_def clearIfSet_def clearTimeout_def
        split: option.splits if_splits)

text \<open>
  \<open>timersOk\<close>: the handle of every pending timer, and every handle kept in an object, was
  given out before (it is below \<open>nextHandle\<close>), and every pending timer is for an object
  created before.
\<close>

fun targetOf :: "callback \<Rightarrow> nat" where
  "targetOf (NoOutputCb r) = r"
| "targetOf (IdleCb r) = r"

definition timersOk :: "tracker \<Rightarrow> bool" where
  "timersOk s \<longleftrightarrow>
     (\<forall>t \<in> set (timers s). handle t < nextHandle s \<and> targetOf (cb t) < nextId s)
     \<and> (\<forall>r ob h. heap s r = Some ob \<and> (idleTimer ob = Some h \<or> noOutputTimeout ob = Some h)
           \<longrightarrow> h < nextHandle s)"

lemma timersOk_update [simp]:
  "timersOk (s\<lparr> clock := c \<rparr>) = timersOk s"
  "timersOk (s\<lparr> activeKeystroke := k \<rparr>) = timersOk s"
  "timersOk (s\<lparr> activeTurn := a \<rparr>) = timersOk s"
  "timersOk (s\<lparr> emitted := e \<rparr>) = timersOk s"
  "timersOk (s\<lparr> turnIndex := i \<rparr>) = timersOk s"
  by (simp_all add: timersOk_def)

lemma timersOk_filter: "timersOk s \<Longrightarrow> timersOk (s\<lparr> timers := filter P (timers s) \<rparr>)"
  by (auto simp: timersOk_def)

lemma timersOk_finalize: "timersOk s \<Longrightarrow> timersOk (finalize r reason s)"
  unfolding timersOk_def using timers_finalize_subset [of r reason s] by (auto simp: subset_iff)

lemma timersOk_addInput: "timersOk s \<Longrightarrow> timersOk (addInput slot n s)"
  unfolding timersOk_def by (auto simp: heap_addInput split: option.splits if_splits)

lemma timersOk_start: "timersOk s \<Longrightarrow> timersOk (snd (startInteraction opts k t0 extra s))"
  unfolding timersOk_def
  by (auto simp: heap_startInteraction timers_startInteraction less_SucI split: if_splits)

lemma timersOk_observeOutput:
  assumes "timersOk s" and "\<And>ob. heap s r = Some ob \<Longrightarrow> r < nextId s"
  shows "timersOk (observeOutput opts r now b s)"
proof (cases "heap s r")
  case None
  then show ?thesis using assms(1) by (simp add: observeOutput_def)
next
  case (Some ob)
  have a: "\<forall>t \<in> set (timers (observeOutput opts r now b s)).
             handle t < nextHandle s + 1 \<and> targetOf (cb t) < nextId s"
    using timers_observeOutput_subset [of opts r now b s] assms Some
    by (fastforce simp: timersOk_def)
  have fld: "\<And>r' ob' h. heap s r' = Some ob' \<Longrightarrow>
               idleTimer ob' = Some h \<or> noOutputTimeout ob' = Some h \<Longrightarrow> h < Suc (nextHandle s)"
    using assms(1) unfolding timersOk_def by (meson less_SucI)
  have b: "\<forall>r' ob' h. heap (observeOutput opts r now b s) r' = Some ob'
             \<and> (idleTimer ob' = Some h \<or> noOutputTimeout ob' = Some h) \<longrightarrow> h < nextHandle s + 1"
    using Some fld [of r ob] fld
    by (auto simp: heap_observeOutput split: option.splits if_splits)
  show ?thesis
    unfolding timersOk_def using a b Some by (simp add: nextHandle_observeOutput)
qed

lemma timersOk_beginTurn: "timersOk s \<Longrightarrow> timersOk (beginTurn opts src now s)"
  by (auto simp: beginTurn_def Let_def split_beta split: option.splits
        intro!: timersOk_start timersOk_finalize)

lemma timersOk_keystrokeInput: "timersOk s \<Longrightarrow> timersOk (keystrokeInput opts now n s)"
  by (auto simp: keystrokeInput_def Let_def split_beta intro!: timersOk_addInput timersOk_start)

lemma timersOk_handleInput: "timersOk s \<Longrightarrow> timersOk (handleInput opts now data n s)"
  by (auto simp: handleInput_def Let_def
        intro!: timersOk_addInput timersOk_beginTurn timersOk_keystrokeInput)

lemma timersOk_handleOutput:
  assumes "timersOk s" and "trackerOk s"
  shows "timersOk (handleOutput opts now b s)"
proof -
  have lt: "\<And>r ob. heap s r = Some ob \<Longrightarrow> r < nextId s"
    using assms(2) by (auto simp: trackerOk_def objOk_def)
  have 1: "\<And>r. timersOk (observeOutput opts r now b s)"
    using assms(1) lt by (intro timersOk_observeOutput) auto
  have 2: "\<And>r r'. timersOk (observeOutput opts r' now b (observeOutput opts r now b s))"
  proof -
    fix r r'
    show "timersOk (observeOutput opts r' now b (observeOutput opts r now b s))"
    proof (rule timersOk_observeOutput [OF 1])
      fix ob assume "heap (observeOutput opts r now b s) r' = Some ob"
      then have "heap s r' \<noteq> None"
        by (auto simp: heap_observeOutput split: option.splits if_splits)
      then show "r' < nextId (observeOutput opts r now b s)" using lt by auto
    qed
  qed
  show ?thesis
    using assms(1) 1 2 by (auto simp: handleOutput_def Let_def split: option.splits)
qed

lemma timersOk_endSession: "timersOk s \<Longrightarrow> timersOk (endSession s)"
  by (auto simp: endSession_def Let_def split: option.splits intro!: timersOk_finalize)

lemma timersOk_fire: "timersOk s \<Longrightarrow> timersOk (fire c s)"
  by (auto simp: fire_def split: callback.splits option.splits intro!: timersOk_finalize)

lemma timersOk_timerFires: "timersOk s \<Longrightarrow> timersOk (timerFires h s)"
  by (auto simp: timerFires_def split: option.splits intro!: timersOk_fire timersOk_filter)

lemma timersOk_run_due: "timersOk s \<Longrightarrow> timersOk (run_due target s)"
  by (induction rule: run_due_induct) (simp_all add: timersOk_fire timersOk_filter)

lemma timersOk_step: "timersOk s \<Longrightarrow> trackerOk s \<Longrightarrow> timersOk (step opts e s)"
  by (cases e) (simp_all add: timersOk_handleInput timersOk_handleOutput markTurn_def
      timersOk_beginTurn timersOk_endSession timersOk_timerFires timersOk_run_due)

lemma timersOk_run_from: "timersOk s \<Longrightarrow> trackerOk s \<Longrightarrow> timersOk (run opts es s)"
  by (induction es arbitrary: s) (simp_all add: run_def timersOk_step wf_step)

lemma timersOk_run: "timersOk (run opts es init)"
  by (rule timersOk_run_from [OF _ wf_init]) (simp add: timersOk_def init_def)

subsection \<open>A keystroke interaction waiting for output\<close>

definition kTimer :: "nat \<Rightarrow> nat \<Rightarrow> nat \<Rightarrow> timer" where
  "kTimer k h d = \<lparr> handle = h, due = d, cb = NoOutputCb k \<rparr>"

text \<open>
  \<open>waiting k h d s\<close>: the keystroke interaction \<open>k\<close> is active and has seen no output; its
  no-output timer, of handle \<open>h\<close> and due at \<open>d\<close>, is pending, no other pending timer and
  no other object has that handle, and no idle timer is pending for \<open>k\<close>.
  \<open>timedOut k s\<close>: \<open>k\<close> was handed to \<open>onInteraction\<close> as a keystroke interaction that ended
  by timeout.
\<close>

definition waiting :: "nat \<Rightarrow> nat \<Rightarrow> nat \<Rightarrow> tracker \<Rightarrow> bool" where
  "waiting k h d s \<longleftrightarrow>
     activeKeystroke s = Some k \<and> activeTurn s \<noteq> Some k
     \<and> (\<exists>ob. heap s k = Some ob \<and> it_kind ob = Keystroke \<and> firstOutputAtMs ob = None)
     \<and> (\<forall>r ob. heap s r = Some ob \<longrightarrow> it_id ob = r)
     \<and> k < nextId s \<and> h < nextHandle s
     \<and> kTimer k h d \<in> set (timers s)
     \<and> (\<forall>t \<in> set (timers s). handle t = h \<longrightarrow> t = kTimer k h d)
     \<and> (\<forall>t \<in> set (timers s). cb t \<noteq> IdleCb k)
     \<and> (\<forall>r ob. heap s r = Some ob \<and> r \<noteq> k \<longrightarrow>
           idleTimer ob \<noteq> Some h \<and> noOutputTimeout ob \<noteq> Some h)"

definition timedOut :: "nat \<Rightarrow> tracker \<Rightarrow> bool" where
  "timedOut k s \<longleftrightarrow>
     (\<exists>i. OnInteraction i \<in> set (emitted s) \<and> i_id i = k \<and> i_kind i = Keystroke
          \<and> endReason i = Timeout \<and> t1Ms i = None)"

lemma waiting_update [simp]:
  "waiting k h d (s\<lparr> clock := c \<rparr>) = waiting k h d s"
  "waiting k h d (s\<lparr> emitted := e \<rparr>) = waiting k h d s"
  "waiting k h d (s\<lparr> turnIndex := i \<rparr>) = waiting k h d s"
  by (simp_all add: waiting_def)

lemma waiting_activeTurn: "waiting k h d s \<Longrightarrow> a \<noteq> Some k \<Longrightarrow> waiting k h d (s\<lparr> activeTurn := a \<rparr>)"
  by (simp add: waiting_def)

lemma waiting_filter:
  "waiting k h d s \<Longrightarrow> h' \<noteq> h \<Longrightarrow>
     waiting k h d (s\<lparr> timers := filter (\<lambda>t. handle t \<noteq> h') (timers s) \<rparr>)"
  by (auto simp: waiting_def kTimer_def)

lemma waiting_clearIfSet: "waiting k h d s \<Longrightarrow> x \<noteq> Some h \<Longrightarrow> waiting k h d (clearIfSet x s)"
  by (cases x) (auto simp: clearIfSet_def clearTimeout_def dest: waiting_filter)

lemma waiting_finalize:
  assumes "waiting k h d s" and "r \<noteq> k"
  shows "waiting k h d (finalize r reason s)"
proof (cases "heap s r")
  case None
  then show ?thesis using assms(1) by (simp add: finalize_def)
next
  case (Some ob)
  have hs: "idleTimer ob \<noteq> Some h" "noOutputTimeout ob \<noteq> Some h" and idr: "it_id ob = r"
    using assms Some by (auto simp: waiting_def)
  let ?s2 = "clearIfSet (noOutputTimeout ob) (clearIfSet (idleTimer ob) s)"
  have w2: "waiting k h d ?s2"
    using assms(1) hs by (intro waiting_clearIfSet)
  have ks: "\<not> slotHasId ?s2 (activeKeystroke ?s2) (it_id ob)"
    using assms idr by (auto simp: waiting_def slotHasId_def)
  have "finalize r reason s =
          (if slotHasId ?s2 (activeTurn ?s2) (it_id ob) then ?s2\<lparr> activeTurn := None \<rparr> else ?s2)
            \<lparr> emitted := emitted s @ [OnInteraction (mkInteraction ob reason)] \<rparr>"
    using Some ks by (simp add: finalize_def Let_def)
  then show ?thesis using w2 by (simp add: waiting_activeTurn)
qed

lemma waiting_start:
  assumes "waiting k h d s"
  shows "waiting k h d (snd (startInteraction opts kind t0 extra s))"
  using assms unfolding waiting_def
  by (auto simp: heap_startInteraction timers_startInteraction kTimer_def less_SucI)

lemma waiting_addInput: "waiting k h d s \<Longrightarrow> waiting k h d (addInput slot n s)"
  unfolding waiting_def by (auto simp: heap_addInput split: option.splits)

lemma waiting_beginTurn:
  assumes "waiting k h d s"
  shows "waiting k h d (beginTurn opts src now s)"
proof -
  have ne: "\<And>r. activeTurn s = Some r \<Longrightarrow> r \<noteq> k"
    using assms by (auto simp: waiting_def)
  have lt: "k < nextId s" using assms by (simp add: waiting_def)
  show ?thesis
  proof (cases "activeTurn s")
    case None
    then show ?thesis
      using assms lt
      by (auto simp: beginTurn_def Let_def split_beta
            intro!: waiting_activeTurn waiting_start)
  next
    case (Some r)
    then show ?thesis
      using assms lt ne [OF Some]
      by (auto simp: beginTurn_def Let_def split_beta
            intro!: waiting_activeTurn waiting_start waiting_finalize)
  qed
qed

lemma waiting_keystrokeInput: "waiting k h d s \<Longrightarrow> waiting k h d (keystrokeInput opts now n s)"
  by (auto simp: keystrokeInput_def Let_def waiting_addInput) (simp add: waiting_def)

lemma waiting_handleInput_from:
  "waiting k h d (keystrokeInput opts now n s) \<Longrightarrow> waiting k h d (handleInput opts now data n s)"
  by (simp add: handleInput_def Let_def waiting_addInput waiting_beginTurn)

lemma waiting_handleInput: "waiting k h d s \<Longrightarrow> waiting k h d (handleInput opts now data n s)"
  by (rule waiting_handleInput_from) (rule waiting_keystrokeInput)

lemma waiting_fire_other:
  assumes "waiting k h d s" and "targetOf c \<noteq> k"
  shows "waiting k h d (fire c s)"
  using assms by (cases c) (auto simp: fire_def waiting_finalize split: option.splits)

lemma timedOut_update [simp]:
  "timedOut k (s\<lparr> clock := c \<rparr>) = timedOut k s"
  "timedOut k (s\<lparr> timers := ts \<rparr>) = timedOut k s"
  "timedOut k (s\<lparr> activeKeystroke := a \<rparr>) = timedOut k s"
  "timedOut k (s\<lparr> activeTurn := b \<rparr>) = timedOut k s"
  by (simp_all add: timedOut_def)

lemma timedOut_mono: "set (emitted s) \<subseteq> set (emitted s') \<Longrightarrow> timedOut k s \<Longrightarrow> timedOut k s'"
  unfolding timedOut_def by blast

lemma timedOut_finalize: "timedOut k s \<Longrightarrow> timedOut k (finalize r reason s)"
  by (rule timedOut_mono [where s = s]) (auto simp: emitted_finalize)

lemma timedOut_fire: "timedOut k s \<Longrightarrow> timedOut k (fire c s)"
  by (cases c) (auto simp: fire_def timedOut_finalize split: option.splits)

lemma timedOut_timerFires: "timedOut k s \<Longrightarrow> timedOut k (timerFires h s)"
  by (auto simp: timerFires_def timedOut_fire split: option.splits)

lemma timedOut_run_due: "timedOut k s \<Longrightarrow> timedOut k (run_due target s)"
  by (induction rule: run_due_induct) (simp_all add: timedOut_fire)

lemma timedOut_endSession: "timedOut k s \<Longrightarrow> timedOut k (endSession s)"
  by (auto simp: endSession_def Let_def timedOut_finalize split: option.splits)

lemma timedOut_beginTurn: "timedOut k s \<Longrightarrow> timedOut k (beginTurn opts src now s)"
  by (rule timedOut_mono [where s = s]) (auto simp: emitted_beginTurn)

lemma emitted_keystrokeInput [simp]: "emitted (keystrokeInput opts now n s) = emitted s"
  by (simp add: keystrokeInput_def Let_def split_beta)

lemma timedOut_handleInput: "timedOut k s \<Longrightarrow> timedOut k (handleInput opts now data n s)"
  by (rule timedOut_mono [where s = s]) (auto simp: emitted_handleInput emitted_beginTurn)

lemma timedOut_handleOutput: "timedOut k s \<Longrightarrow> timedOut k (handleOutput opts now b s)"
  by (rule timedOut_mono [where s = s]) simp_all

lemma timedOut_step: "timedOut k s \<Longrightarrow> timedOut k (step opts e s)"
  by (cases e) (simp_all add: timedOut_handleInput timedOut_handleOutput markTurn_def
      timedOut_beginTurn timedOut_endSession timedOut_timerFires timedOut_run_due)

lemma timedOut_run: "timedOut k s \<Longrightarrow> timedOut k (run opts es s)"
  by (induction es arbitrary: s) (simp_all add: run_def timedOut_step)

text \<open>The no-output timer of a waiting interaction ends it by timeout when it runs.\<close>

lemma timedOut_fire_own:
  assumes "heap s k = Some ob" and "it_id ob = k" and "it_kind ob = Keystroke"
    and "firstOutputAtMs ob = None"
  shows "timedOut k (fire (NoOutputCb k) s)"
proof -
  have "OnInteraction (mkInteraction ob Timeout) \<in> set (emitted (fire (NoOutputCb k) s))"
    using assms by (simp add: fire_def emitted_finalize)
  moreover have "t1Ms (mkInteraction ob Timeout) = None"
    using assms(4) by (simp add: mkInteraction_def)
  ultimately show ?thesis
    unfolding timedOut_def using assms(2,3) by (intro exI [of _ "mkInteraction ob Timeout"]) simp
qed

text \<open>Running any pending timer of a state with a waiting interaction.\<close>

lemma waiting_run_timer:
  assumes w: "waiting k h d s" and t: "t \<in> set (timers s)"
  shows "waiting k h d (fire (cb t) (s\<lparr> clock := c, timers := filter (\<lambda>u. handle u \<noteq> handle t) (timers s) \<rparr>))
         \<or> timedOut k (fire (cb t) (s\<lparr> clock := c, timers := filter (\<lambda>u. handle u \<noteq> handle t) (timers s) \<rparr>))"
    (is "waiting k h d (fire (cb t) ?s') \<or> _")
proof (cases "cb t = NoOutputCb k")
  case True
  obtain ob where "heap s k = Some ob" "it_kind ob = Keystroke" "firstOutputAtMs ob = None"
      "it_id ob = k"
    using w by (auto simp: waiting_def)
  then have "timedOut k (fire (NoOutputCb k) ?s')"
    by (intro timedOut_fire_own [where ob = ob]) simp_all
  then show ?thesis using True by simp
next
  case False
  have "cb t \<noteq> IdleCb k" using w t by (auto simp: waiting_def)
  with False have tg: "targetOf (cb t) \<noteq> k" by (cases "cb t") auto
  have "handle t \<noteq> h"
  proof
    assume "handle t = h"
    then have "t = kTimer k h d" using w t by (simp add: waiting_def)
    then show False using False by (simp add: kTimer_def)
  qed
  moreover have "waiting k h d (s\<lparr> clock := c \<rparr>)" using w by simp
  ultimately have "waiting k h d ((s\<lparr> clock := c \<rparr>)
      \<lparr> timers := filter (\<lambda>u. handle u \<noteq> handle t) (timers (s\<lparr> clock := c \<rparr>)) \<rparr>)"
    by (intro waiting_filter)
  then have "waiting k h d ?s'" by simp
  then show ?thesis using tg by (simp add: waiting_fire_other)
qed

lemma waiting_timerFires:
  assumes "waiting k h d s"
  shows "waiting k h d (timerFires h' s) \<or> timedOut k (timerFires h' s)"
proof (cases "find (\<lambda>t. handle t = h') (timers s)")
  case None
  then show ?thesis using assms by (simp add: timerFires_def)
next
  case (Some t)
  then have "t \<in> set (timers s)" "handle t = h'"
    by (auto simp: find_Some_iff)
  then show ?thesis
    using waiting_run_timer [OF assms, of t "clock s"] Some by (simp add: timerFires_def)
qed

lemma earliest_None [simp]: "earliest ts = None \<longleftrightarrow> ts = []"
  by (cases ts) (auto split: option.splits)

lemma waiting_run_due:
  assumes "waiting k h d s \<or> timedOut k s"
  shows "(waiting k h d (run_due target s) \<or> timedOut k (run_due target s))
         \<and> (d \<le> target \<longrightarrow> timedOut k (run_due target s))"
  using assms
proof (induction target s rule: run_due.induct)
  case (1 target s)
  show ?case
  proof (cases "timedOut k s")
    case True
    then show ?thesis by (simp add: timedOut_run_due)
  next
    case False
    with "1.prems" have w: "waiting k h d s" by simp
    show ?thesis
    proof (cases "earliest (filter (\<lambda>t. due t \<le> target) (timers s))")
      case None
      then have empty: "filter (\<lambda>t. due t \<le> target) (timers s) = []" by simp
      have "kTimer k h d \<in> set (timers s)" using w by (simp add: waiting_def)
      with empty have late: "\<not> d \<le> target"
        by (auto simp: filter_empty_conv kTimer_def)
      have eq: "run_due target s = s\<lparr> clock := max (clock s) target \<rparr>"
        using None by (subst run_due.simps) simp
      show ?thesis unfolding eq using w late by simp
    next
      case (Some t)
      then have "t \<in> set (timers s)" using earliest_in by fastforce
      note now = waiting_run_timer [OF w this, of "max (clock s) (due t)"]
      have eq: "run_due target s =
                  run_due target (fire (cb t) (s\<lparr> clock := max (clock s) (due t),
                     timers := filter (\<lambda>u. handle u \<noteq> handle t) (timers s) \<rparr>))"
        using Some by (subst run_due.simps) simp
      show ?thesis unfolding eq by (rule "1.IH" [OF Some now])
    qed
  qed
qed

subsection \<open>Events that are neither output nor the end of the session\<close>

fun quiet :: "event \<Rightarrow> bool" where
  "quiet (HandleOutput now b) = False"
| "quiet EndSession = False"
| "quiet e = True"

lemma waiting_step:
  assumes "quiet e" and "waiting k h d s \<or> timedOut k s"
  shows "waiting k h d (step opts e s) \<or> timedOut k (step opts e s)"
proof (cases "timedOut k s")
  case True
  then show ?thesis by (simp add: timedOut_step)
next
  case False
  with assms(2) have w: "waiting k h d s" by simp
  show ?thesis
  proof (cases e)
    case (HandleInput now data n)
    then show ?thesis using w by (simp add: waiting_handleInput)
  next
    case (MarkTurn now src)
    then show ?thesis using w by (simp add: markTurn_def waiting_beginTurn)
  next
    case (TimerFires h')
    then show ?thesis using waiting_timerFires [OF w] by simp
  next
    case (AdvanceTimers x)
    then show ?thesis using waiting_run_due [of k h d s "clock s + x"] w by simp
  qed (use assms(1) in simp_all)
qed

lemma waiting_run:
  assumes "\<forall>e \<in> set es. quiet e" and "waiting k h d s \<or> timedOut k s"
  shows "waiting k h d (run opts es s) \<or> timedOut k (run opts es s)"
  using assms
proof (induction es arbitrary: s)
  case Nil
  then show ?case by (simp add: run_def)
next
  case (Cons e es)
  have "waiting k h d (step opts e s) \<or> timedOut k (step opts e s)"
    using Cons.prems by (intro waiting_step) auto
  from Cons.IH [OF _ this] Cons.prems(1) show ?case by (simp add: run_def)
qed

text \<open>An input event that finds no keystroke interaction starts one that is waiting.\<close>

lemma waiting_started:
  assumes ok: "trackerOk s" and tk: "timersOk s" and none: "activeKeystroke s = None"
  shows "waiting (nextId s) (nextHandle s) (clock s + timerDelay (interactionTimeoutMs opts))
           (handleInput opts now data n s)"
proof (rule waiting_handleInput_from)
  let ?k = "nextId s" and ?h = "nextHandle s"
  let ?s1 = "snd (startInteraction opts Keystroke now None s)"
  have ks: "keystrokeInput opts now n s
              = addInput (Some ?k) n (?s1\<lparr> activeKeystroke := Some ?k \<rparr>)"
    using none by (simp add: keystrokeInput_def Let_def split_beta)
  have fresh: "heap s ?k = None" using ok by (rule wf_heap_fresh)
  have obj: "\<And>r ob. heap s r = Some ob \<Longrightarrow> it_id ob = r \<and> r < ?k"
    using ok by (auto simp: trackerOk_def dest: objOkD)
  have turn: "activeTurn s \<noteq> Some ?k"
    using ok fresh by (auto simp: trackerOk_def slotsOk_def)
  have old: "\<And>t. t \<in> set (timers s) \<Longrightarrow> handle t < ?h \<and> targetOf (cb t) < ?k"
    using tk by (auto simp: timersOk_def)
  have oldh: "\<And>r ob. heap s r = Some ob \<Longrightarrow> idleTimer ob \<noteq> Some ?h \<and> noOutputTimeout ob \<noteq> Some ?h"
    using tk unfolding timersOk_def by (metis less_irrefl)
  have idle: "\<And>t. t \<in> set (timers s) \<Longrightarrow> cb t \<noteq> IdleCb ?k"
    using old by fastforce
  have oldne: "\<And>t. t \<in> set (timers s) \<Longrightarrow> handle t \<noteq> ?h"
    using old by fastforce
  show "waiting ?k ?h (clock s + timerDelay (interactionTimeoutMs opts)) (keystrokeInput opts now n s)"
    unfolding ks waiting_def
    using fresh obj turn oldne oldh idle
    by (auto simp: heap_addInput heap_startInteraction timers_startInteraction kTimer_def)
qed

subsection \<open>The no-output timer of a keystroke interaction\<close>

definition idleRun :: "event list" where
  "idleRun = [HandleInput 0 ''a'' 1, HandleOutput 5 1, AdvanceTimers 30]"

definition silentEvents :: "event list" where
  "silentEvents = [AdvanceTimers 20, MarkTurn 65 Hotkey]"

definition silentRun :: "event list" where
  "silentRun = idleRun @ HandleInput 40 ''b'' 1 # silentEvents @ AdvanceTimers 30 # []"

text \<open>
  The delay of a timer is the option itself when that is a whole number of milliseconds
  from 1 to \<open>2^31 - 1\<close>, and it is never longer than an option that is at least 1.
\<close>

lemma timerDelay_whole: "1 \<le> n \<Longrightarrow> n \<le> 2147483647 \<Longrightarrow> timerDelay (of_nat n) = n"
  by (simp add: timerDelay_def)

lemma timerDelay_le: "1 \<le> d \<Longrightarrow> of_nat (timerDelay d) \<le> d"
  by (auto simp: timerDelay_def)

definition sessionEndRun :: "event list" where
  "sessionEndRun = [HandleInput 0 ''a'' 1, EndSession, AdvanceTimers 100]"

text \<open>
  C10, as stated, fails: when the session ends before the timer is due, \<open>endSession\<close> ends
  the keystroke interaction with \<open>sessionEnd\<close> and clears its timer. Here no output event
  arrives at all, 100 ms pass with a timeout of 50 ms, and the interaction is handed to
  \<open>onInteraction\<close> once, with \<open>sessionEnd\<close>.
\<close>

theorem C10_session_end_counterexample:
  "activeKeystroke (run testOpts [HandleInput 0 ''a'' 1] init) = Some 1
   \<and> timerDelay (interactionTimeoutMs testOpts) = 50
   \<and> clock (run testOpts sessionEndRun init) = 100
   \<and> emitted (run testOpts sessionEndRun init)
       = [OnInteraction \<lparr> i_id = 1, i_kind = Keystroke, i_t0Ms = 0, t1Ms = None, t2Ms = None,
                           i_inputBytes = 1, i_outputBytes = 0, i_turnIndex = None,
                           endReason = SessionEnd \<rparr>]"
  by code_simp

text \<open>
  C10, amended: an input event that finds no keystroke interaction active starts one, whose
  id is the next free id, with a no-output timer that is due \<open>timerDelay interactionTimeoutMs\<close>
  after the start. If the events that follow are neither output events nor the end of the
  session, up to a stretch of time on the event loop that carries the clock to the time
  the timer is due or beyond, then the tracker has handed that keystroke interaction to
  \<open>onInteraction\<close> with end reason \<open>timeout\<close> and no first-output delay; this stays so in
  every continuation of the run.
\<close>

theorem C10_keystroke_timeout:
  assumes "activeKeystroke (run opts es0 init) = None"
    and "list_all quiet es"
    and "clock (run opts es0 init) + timerDelay (interactionTimeoutMs opts)
           \<le> clock (run opts (es0 @ HandleInput now data n # es) init) + d"
  shows "activeKeystroke (run opts (es0 @ [HandleInput now data n]) init)
           = Some (nextId (run opts es0 init))
         \<and> (\<exists>i. OnInteraction i \<in> set (emitted (run opts
                    (es0 @ HandleInput now data n # es @ AdvanceTimers d # es2) init))
                \<and> i_id i = nextId (run opts es0 init) \<and> i_kind i = Keystroke
                \<and> endReason i = Timeout \<and> t1Ms i = None)"
proof -
  let ?s0 = "run opts es0 init"
  let ?k = "nextId ?s0" and ?h = "nextHandle ?s0"
  let ?due = "clock ?s0 + timerDelay (interactionTimeoutMs opts)"
  let ?s1 = "handleInput opts now data n ?s0"
  let ?s2 = "run opts es ?s1"
  have w1: "waiting ?k ?h ?due ?s1"
    using wf_run timersOk_run assms(1) by (rule waiting_started)
  then have slot: "activeKeystroke ?s1 = Some ?k" by (simp add: waiting_def)
  have "\<forall>e \<in> set es. quiet e" using assms(2) by (simp add: list_all_iff)
  then have w2: "waiting ?k ?h ?due ?s2 \<or> timedOut ?k ?s2"
    using w1 by (intro waiting_run) simp_all
  have s2: "run opts (es0 @ HandleInput now data n # es) init = ?s2"
    by (simp add: run_def)
  have "?due \<le> clock ?s2 + d" using assms(3) unfolding s2 .
  then have "timedOut ?k (run_due (clock ?s2 + d) ?s2)"
    using waiting_run_due [OF w2, of "clock ?s2 + d"] by simp
  then have "timedOut ?k (run opts es2 (run_due (clock ?s2 + d) ?s2))"
    by (rule timedOut_run)
  moreover have "run opts (es0 @ HandleInput now data n # es @ AdvanceTimers d # es2) init
                   = run opts es2 (run_due (clock ?s2 + d) ?s2)"
    by (simp add: run_def)
  ultimately have "timedOut ?k (run opts
      (es0 @ HandleInput now data n # es @ AdvanceTimers d # es2) init)"
    by simp
  moreover have "activeKeystroke (run opts (es0 @ [HandleInput now data n]) init) = Some ?k"
    using slot by (simp add: run_def)
  ultimately show ?thesis unfolding timedOut_def by blast
qed

theorem C10_keystroke_timeout_witness:
  "activeKeystroke (run testOpts idleRun init) = None
   \<and> list_all quiet silentEvents
   \<and> clock (run testOpts idleRun init) + timerDelay (interactionTimeoutMs testOpts)
        \<le> clock (run testOpts (idleRun @ HandleInput 40 ''b'' 1 # silentEvents) init) + 30
   \<and> activeKeystroke (run testOpts (idleRun @ [HandleInput 40 ''b'' 1]) init) = Some 2
   \<and> (\<exists>i. OnInteraction i \<in> set (emitted (run testOpts silentRun init))
          \<and> i_id i = 2 \<and> i_kind i = Keystroke \<and> endReason i = Timeout \<and> t1Ms i = None)"
proof -
  have h1: "activeKeystroke (run testOpts idleRun init) = None" by code_simp
  have h2: "list_all quiet silentEvents" by code_simp
  have h3: "clock (run testOpts idleRun init) + timerDelay (interactionTimeoutMs testOpts)
              \<le> clock (run testOpts (idleRun @ HandleInput 40 ''b'' 1 # silentEvents) init) + 30"
    by code_simp
  have h4: "nextId (run testOpts idleRun init) = 2" by code_simp
  from C10_keystroke_timeout [OF h1 h2 h3, of "[]"] h1 h2 h3 show ?thesis
    unfolding h4 silentRun_def by simp
qed

subsection \<open>Pending timers belong to active interactions\<close>

text \<open>
  The handle that an object keeps for the timer with this callback.
\<close>

fun stored :: "callback \<Rightarrow> ActiveInteraction \<Rightarrow> nat option" where
  "stored (NoOutputCb r) ob = noOutputTimeout ob"
| "stored (IdleCb r) ob = idleTimer ob"

text \<open>
  \<open>timersTied\<close>: every pending timer is for an interaction that is in a slot, and the
  object of that interaction keeps the handle of the timer. So \<open>finalize\<close>, which clears
  the two handles of the object, leaves no timer pending for it.
\<close>

definition timersTied :: "tracker \<Rightarrow> bool" where
  "timersTied s \<longleftrightarrow>
     (\<forall>t \<in> set (timers s).
        inSlot s (targetOf (cb t))
        \<and> (\<exists>ob. heap s (targetOf (cb t)) = Some ob \<and> stored (cb t) ob = Some (handle t)))"


lemma timersTied_update [simp]:
  "timersTied (s\<lparr> clock := c \<rparr>) = timersTied s"
  "timersTied (s\<lparr> emitted := e \<rparr>) = timersTied s"
  "timersTied (s\<lparr> turnIndex := i \<rparr>) = timersTied s"
  by (simp_all add: timersTied_def inSlot_def)


lemma timersTied_slot_same:
  "activeTurn s = a \<Longrightarrow> timersTied (s\<lparr> activeTurn := a \<rparr>) = timersTied s"
  "activeKeystroke s = k \<Longrightarrow> timersTied (s\<lparr> activeKeystroke := k \<rparr>) = timersTied s"
  by (auto simp: timersTied_def inSlot_def)





lemma stored_addInput [simp]: "stored c (ob\<lparr> it_inputBytes := n \<rparr>) = stored c ob"
  by (cases c) simp_all



















subsection \<open>The time of the event loop\<close>

lemma clock_handleInput [simp]: "clock (handleInput opts now data n s) = clock s"
  by (simp add: handleInput_def Let_def)

lemma clock_endSession [simp]: "clock (endSession s) = clock s"
  by (simp add: endSession_def Let_def split: option.splits)

lemma clock_timerFires [simp]: "clock (timerFires h s) = clock s"
  by (simp add: timerFires_def split: option.splits)





subsection \<open>An interaction that has not ended by timeout\<close>

definition noTimeout :: "nat \<Rightarrow> tracker \<Rightarrow> bool" where
  "noTimeout r s \<longleftrightarrow>
     (\<forall>i. OnInteraction i \<in> set (emitted s) \<and> i_id i = r \<longrightarrow> endReason i \<noteq> Timeout)"

lemma noTimeout_update [simp]:
  "noTimeout r (s\<lparr> clock := c \<rparr>) = noTimeout r s"
  "noTimeout r (s\<lparr> timers := ts \<rparr>) = noTimeout r s"
  "noTimeout r (s\<lparr> activeKeystroke := k \<rparr>) = noTimeout r s"
  "noTimeout r (s\<lparr> activeTurn := a \<rparr>) = noTimeout r s"
  by (simp_all add: noTimeout_def)

lemma noTimeout_same: "emitted s' = emitted s \<Longrightarrow> noTimeout r s' = noTimeout r s"
  by (simp add: noTimeout_def)







subsection \<open>Timers that run no earlier than they are due\<close>




















subsection \<open>An interaction that has ended stays as it is\<close>

text \<open>
  \<open>hasEnded r s\<close>: the interaction \<open>r\<close> was started, is in no slot, and has not ended by
  timeout. No timer is pending for it then, so it is never handed to \<open>onInteraction\<close>
  again.
\<close>

definition hasEnded :: "nat \<Rightarrow> tracker \<Rightarrow> bool" where
  "hasEnded r s \<longleftrightarrow> r < nextId s \<and> \<not> inSlot s r \<and> noTimeout r s"

lemma hasEnded_update [simp]:
  "hasEnded r (s\<lparr> clock := c \<rparr>) = hasEnded r s"
  "hasEnded r (s\<lparr> timers := ts \<rparr>) = hasEnded r s"
  by (simp_all add: hasEnded_def inSlot_def)


lemma noTimeout_addInput [simp]: "noTimeout r (addInput slot n s) = noTimeout r s"
  by (rule noTimeout_same) simp

lemma noTimeout_keystrokeInput [simp]: "noTimeout r (keystrokeInput opts now n s) = noTimeout r s"
  by (rule noTimeout_same) simp















subsection \<open>Output before the no-output timer is due\<close>








section \<open>External-log correlator (src/session/jsonlCorrelate.ts)\<close>

text \<open>
  A parsed line is a JSON value; numbers are integers here. \<open>JSON.parse\<close> and \<open>Date.parse\<close>
  are parameters (\<open>None\<close> when the one throws and the other returns \<open>NaN\<close>). A line is a
  list of bytes, so \<open>Buffer.byteLength\<close> is \<open>length\<close>.
\<close>

datatype json = JNull | JBool bool | JNum int | JStr string | JArr "json list"
  | JObj "(string \<times> json) list"

fun isObject :: "json \<Rightarrow> bool" where
  "isObject (JObj props) = True"
| "isObject j = False"

fun getProp :: "json \<Rightarrow> string \<Rightarrow> json option" where
  "getProp (JObj props) k = map_of props k"
| "getProp j k = None"

text \<open>
  \<open>toLowerCase\<close> is used to compare a string with the words \<open>user\<close> and \<open>assistant\<close> and
  to look for \<open>tool\<close> in it. The characters outside A to Z are left as they are: the
  lower case of none of them is a letter of these words alone, so the comparisons come
  out as in JavaScript.
\<close>

definition lowerChar :: "char \<Rightarrow> char" where
  "lowerChar c = (let n = (of_char c :: nat) in if 65 \<le> n \<and> n \<le> 90 then char_of (n + 32) else c)"

definition toLowerCase :: "string \<Rightarrow> string" where
  "toLowerCase str = map lowerChar str"






definition strProp :: "json \<Rightarrow> string \<Rightarrow> string list" where
  "strProp j k = (case getProp j k of Some (JStr v) \<Rightarrow> [v] | _ \<Rightarrow> [])"

definition contentToolNames :: "json option \<Rightarrow> string list" where
  "contentToolNames c =
     (case c of
        Some (JArr items) \<Rightarrow>
          concat (map (\<lambda>item.
            if isObject item
               \<and> sublist ''tool'' (toLowerCase (concat (strProp item ''type'')))
            then strProp item ''name'' else []) items)
      | _ \<Rightarrow> [])"

definition extractToolNames :: "json \<Rightarrow> string list" where
  "extractToolNames rec =
     (if \<not> isObject rec then []
      else map (sliceUnits 120) (filter (\<lambda>n. n \<noteq> []) (map trim
             (strProp rec ''tool_name'' @ strProp rec ''toolName''
              @ (case getProp rec ''tool'' of
                   Some t \<Rightarrow> if isObject t then strProp t ''name'' else []
                 | None \<Rightarrow> [])
              @ contentToolNames (getProp rec ''content'')
              @ (case getProp rec ''message'' of
                   Some m \<Rightarrow> if isObject m then contentToolNames (getProp m ''content'') else []
                 | None \<Rightarrow> [])))))"

text \<open>\<open>a ?? b ?? c\<close>: the first value that is neither \<open>undefined\<close> nor \<open>null\<close>.\<close>

fun coalesce :: "json option list \<Rightarrow> json option" where
  "coalesce [] = None"
| "coalesce (None # xs) = coalesce xs"
| "coalesce (Some JNull # xs) = coalesce xs"
| "coalesce (Some v # xs) = Some v"

definition numberOf :: "json option \<Rightarrow> int option" where
  "numberOf v = (case v of Some (JNum n) \<Rightarrow> Some n | _ \<Rightarrow> None)"

definition extractTokenUsage :: "json \<Rightarrow> (int option \<times> int option) option" where
  "extractTokenUsage rec =
     (if \<not> isObject rec then None
      else case coalesce [getProp rec ''usage'', getProp rec ''token_usage'', getProp rec ''tokenUsage''] of
             None \<Rightarrow> None
           | Some usage \<Rightarrow>
               if \<not> isObject usage then None
               else (let inputTokens = numberOf (coalesce [getProp usage ''input_tokens'',
                             getProp usage ''inputTokens'', getProp usage ''prompt_tokens'']);
                         outputTokens = numberOf (coalesce [getProp usage ''output_tokens'',
                             getProp usage ''outputTokens'', getProp usage ''completion_tokens''])
                     in if inputTokens = None \<and> outputTokens = None then None
                        else Some (inputTokens, outputTokens)))"

record bucket =
  b_turnIndex :: nat
  recordCount :: nat
  recordBytes :: nat
  toolUseCount :: nat
  toolUseNames :: "string list"
  inputTokenCount :: int
  outputTokenCount :: int

text \<open>\<open>Set.add\<close> on a set kept as the list of its elements in insertion order.\<close>

definition setAdd :: "string list \<Rightarrow> string \<Rightarrow> string list" where
  "setAdd xs x = (if x \<in> set xs then xs else xs @ [x])"

definition applyRecord :: "bucket \<Rightarrow> string \<Rightarrow> json \<Rightarrow> bucket" where
  "applyRecord b line rec =
     (let toolNames = extractToolNames rec;
          usage = extractTokenUsage rec
      in b\<lparr> recordCount := recordCount b + 1,
            recordBytes := recordBytes b + length line,
            toolUseCount := toolUseCount b + length toolNames,
            toolUseNames := foldl setAdd (toolUseNames b) toolNames,
            inputTokenCount := inputTokenCount b
               + (case usage of Some (Some n, _) \<Rightarrow> n | _ \<Rightarrow> 0),
            outputTokenCount := outputTokenCount b
               + (case usage of Some (_, Some n) \<Rightarrow> n | _ \<Rightarrow> 0) \<rparr>)"

text \<open>
  \<open>perTurnByIndex.get(idx)\<close>: the map is filled in the order of \<open>perTurn\<close>, so of several
  buckets with one index it holds the last. The bucket it returns is the object in
  \<open>perTurn\<close> itself, so \<open>applyRecord\<close> on it updates \<open>perTurn\<close> in place.
\<close>

definition bucketPos :: "bucket list \<Rightarrow> nat \<Rightarrow> nat option" where
  "bucketPos bs idx =
     (case filter (\<lambda>j. b_turnIndex (bs ! j) = idx) [0 ..< length bs] of
        [] \<Rightarrow> None
      | js \<Rightarrow> Some (last js))"

text \<open>\<open>const t = opts.turns[ptr]; if (t) applyRecord(perTurnByIndex.get(t.index), line, rec)\<close>\<close>

definition applyAtTurn :: "TurnEvent list \<Rightarrow> nat \<Rightarrow> string \<Rightarrow> json \<Rightarrow> bucket list \<Rightarrow> bucket list" where
  "applyAtTurn ts ptr line rec bs =
     (if ptr < length ts
      then (case bucketPos bs (index (ts ! ptr)) of
              None \<Rightarrow> bs
            | Some j \<Rightarrow> bs[j := applyRecord (bs ! j) line rec])
      else bs)"

record CorrelateJsonlOptions =
  jsonlPath :: string
  c_startedAtMsEpoch :: int
  endedAtMsEpoch :: "int option"
  turns :: "TurnEvent list"

record correlation =
  parsedLines :: nat
  parsedBytes :: nat
  parseErrors :: nat
  usedTimestamps :: nat
  seenAnyTimestamp :: nat
  usedSequential :: bool
  turnPtr :: nat
  seqTurnPtr :: int
  perTurn :: "bucket list"
  stopped :: bool

function advanceTurnPtr :: "int list \<Rightarrow> int \<Rightarrow> nat \<Rightarrow> nat" where
  "advanceTurnPtr turnEpochMs epochMs ptr =
     (if ptr + 1 < length turnEpochMs \<and> epochMs \<ge> turnEpochMs ! (ptr + 1)
      then advanceTurnPtr turnEpochMs epochMs (ptr + 1) else ptr)"
  by pat_completeness auto
termination
  by (relation "measure (\<lambda>(es, e, ptr). length es - ptr)") auto

declare advanceTurnPtr.simps [simp del]



definition timestampRecord ::
  "CorrelateJsonlOptions \<Rightarrow> correlation \<Rightarrow> string \<Rightarrow> json \<Rightarrow> int \<Rightarrow> correlation" where
  "timestampRecord opts st line rec epochMs =
     (let st1 = st\<lparr> seenAnyTimestamp := seenAnyTimestamp st + 1 \<rparr>;
          startWindowMs = c_startedAtMsEpoch opts - 10000
      in if epochMs < startWindowMs then st1
         else if (case endedAtMsEpoch opts of
                    Some ended \<Rightarrow> epochMs > ended + 60000 \<and> usedTimestamps st1 > 0
                  | None \<Rightarrow> False)
         then st1\<lparr> stopped := True \<rparr>
         else (let ptr = advanceTurnPtr (map (\<lambda>t. c_startedAtMsEpoch opts + tMs t) (turns opts))
                           epochMs (turnPtr st1)
               in st1\<lparr> usedTimestamps := usedTimestamps st1 + 1, turnPtr := ptr,
                        perTurn := applyAtTurn (turns opts) ptr line rec (perTurn st1) \<rparr>))"


datatype correlationMode = Timestamps | Sequential | NoMode

record perTurnResult =
  r_turnIndex :: nat
  r_recordCount :: nat
  r_recordBytes :: nat
  r_toolUseCount :: nat
  r_toolUseNames :: "string list"
  r_inputTokenCount :: "int option"
  r_outputTokenCount :: "int option"

record JsonlCorrelation =
  enabled :: bool
  mode :: correlationMode
  j_parsedLines :: nat
  j_parsedBytes :: nat
  j_parseErrors :: nat
  j_perTurn :: "perTurnResult list"
  j_notes :: "string list"


section \<open>Properties of the correlator\<close>





text \<open>Only a user record without a time stamp moves the sequential pointer, and it moves it up.\<close>

lemma seqTurnPtr_timestampRecord [simp]:
  "seqTurnPtr (timestampRecord opts st line rec epochMs) = seqTurnPtr st"
  by (simp add: timestampRecord_def Let_def)












section \<open>Finalization of a session (src/session/runSession.ts)\<close>

text \<open>
  \<open>RunSessionOptions\<close> as \<open>runSession\<close> declares it. Of \<open>SessionData\<close> the record below has
  the fields that \<open>finalize\<close> and the callbacks write; the fields set once when the session
  is created (\<open>schemaVersion\<close>, \<open>createdAtIso\<close>, \<open>startedAtIso\<close>, \<open>config\<close>, \<open>environment\<close>,
  \<open>calibration\<close>, \<open>samples\<close>) are left out.
\<close>

datatype turnHotkey = AltT | Off

record RunSessionOptions =
  command :: "string list"
  r_cwd :: string
  outputDir :: "string option"
  r_jsonlPath :: "string option"
  r_burstIdleMs :: rat
  r_interactionTimeoutMs :: rat
  sampleIntervalMs :: nat
  r_turnHotkey :: turnHotkey
  durationMs :: "nat option"
  disableMcps :: bool
  unsafeStorePaths :: bool
  unsafeStoreCommand :: bool
  unsafeStoreErrors :: bool

record JsonlTracking =
  jt_activePathSha256 :: "string option"
  jt_samples :: "JsonlSizeSample list"
  correlation :: "JsonlCorrelation option"

record SessionData =
  endedAtIso :: "string option"
  jsonl :: "JsonlTracking option"
  s_turns :: "TurnEvent list"
  s_interactions :: "Interaction list"
  s_markers :: "MarkerEvent list"
  warnings :: "string list"

text \<open>
  The calls that \<open>finalize\<close> can make on its collaborators, in the order made.
  \<open>CorrelateJsonlToTurns\<close> stands for a call of the correlator.
\<close>

datatype effect =
    TrackerEndSession | MonitorStop | MarkerWatcherStop | CleanupTty | StdinOff | SigintOff
  | ChildKill | ClearActiveSession | OverlayCleanup | GenerateReportHtml
  | CorrelateJsonlToTurns | WriteJson SessionData | WriteReportHtml string

text \<open>
  The variables of \<open>runSession\<close> that \<open>finalize\<close> reads. A collaborator that is only
  stopped or detached is a flag: whether the variable is set.
\<close>

record runtime =
  finalized :: bool
  session :: "SessionData option"
  jsonlTracker :: "JsonlTracker option"
  rt_tracker :: "tracker option"
  monitor :: bool
  markerWatcher :: bool
  cleanupTty :: bool
  onStdinData :: bool
  onSigint :: bool
  child :: bool
  overlay :: bool

record jsError =
  e_text :: string
  e_code :: "string option"
  e_name :: "string option"

text \<open>\<open>warn(message, err)\<close> with an error given: the text pushed onto \<open>warnings\<close>.\<close>

definition warnText :: "RunSessionOptions \<Rightarrow> string \<Rightarrow> jsError \<Rightarrow> string" where
  "warnText opts message err =
     (if unsafeStoreErrors opts then message @ '': '' @ e_text err
      else (let nm = (case e_name err of Some n \<Rightarrow> n | None \<Rightarrow> ''Error'')
            in case e_code err of
                 Some c \<Rightarrow> message @ '' ('' @ nm @ '':'' @ c @ '')''
               | None \<Rightarrow> message @ '' ('' @ nm @ '')''))"

text \<open>The callbacks given to the tracker: \<open>session?.turns.push(t)\<close>, \<open>session?.interactions.push(i)\<close>.\<close>

fun pushEmit :: "SessionData \<Rightarrow> emit \<Rightarrow> SessionData" where
  "pushEmit sd (OnTurn t) = sd\<lparr> s_turns := s_turns sd @ [t] \<rparr>"
| "pushEmit sd (OnInteraction i) = sd\<lparr> s_interactions := s_interactions sd @ [i] \<rparr>"

definition whenSet :: "bool \<Rightarrow> effect \<Rightarrow> effect list" where
  "whenSet flag e = (if flag then [e] else [])"

text \<open>
  \<open>finalize\<close>. The report renderer is the parameter \<open>render\<close> (\<open>Inl\<close> when it throws), the
  wall clock the parameter \<open>now\<close>. The result is the new state of the variables and the
  calls made.
\<close>

definition finalizeSession ::
  "(SessionData \<Rightarrow> jsError + string) \<Rightarrow> string \<Rightarrow> RunSessionOptions \<Rightarrow> runtime
     \<Rightarrow> runtime \<times> effect list" where
  "finalizeSession render now opts rt =
     (if finalized rt then (rt, [])
      else
        (let ended = map_option endSession (rt_tracker rt);
             newEmits = (case rt_tracker rt of
                           None \<Rightarrow> []
                         | Some t \<Rightarrow> drop (length (emitted t)) (emitted (endSession t)));
             teardown = whenSet (rt_tracker rt \<noteq> None) TrackerEndSession
                        @ whenSet (monitor rt) MonitorStop
                        @ whenSet (markerWatcher rt) MarkerWatcherStop
                        @ whenSet (cleanupTty rt) CleanupTty
                        @ whenSet (onStdinData rt) StdinOff
                        @ whenSet (onSigint rt) SigintOff
                        @ whenSet (child rt) ChildKill
                        @ [ClearActiveSession]
                        @ whenSet (overlay rt) OverlayCleanup;
             rt1 = rt\<lparr> finalized := True, rt_tracker := ended \<rparr>
         in case session rt of
              None \<Rightarrow> (rt1, teardown)
            | Some sd0 \<Rightarrow>
                (let sd1 = foldl pushEmit sd0 newEmits;
                     sd2 = sd1\<lparr> endedAtIso := Some now \<rparr>;
                     sd3 = (case jsonlTracker rt of
                              None \<Rightarrow> sd2
                            | Some jt \<Rightarrow>
                                sd2\<lparr> jsonl := Some \<lparr> jt_activePathSha256 = activePathSha256 jt,
                                                      jt_samples = samples jt,
                                                      correlation = None \<rparr> \<rparr>)
                 in case render sd3 of
                      Inl err \<Rightarrow>
                        (let sd4 = sd3\<lparr> warnings := warnings sd3
                                      @ [warnText opts ''Failed to generate HTML report'' err] \<rparr>
                         in (rt1\<lparr> session := Some sd4 \<rparr>,
                             teardown @ [GenerateReportHtml, WriteJson sd4]))
                    | Inr html \<Rightarrow>
                        (rt1\<lparr> session := Some sd3 \<rparr>,
                         teardown @ [GenerateReportHtml, WriteJson sd3]
                           @ (if html \<noteq> [] then [WriteReportHtml html] else [])))))"

fun isWriteJson :: "effect \<Rightarrow> bool" where
  "isWriteJson (WriteJson doc) = True"
| "isWriteJson e = False"

lemma whenSet_simps [simp]:
  "CorrelateJsonlToTurns \<notin> set (whenSet flag e) \<longleftrightarrow> (flag \<longrightarrow> e \<noteq> CorrelateJsonlToTurns)"
  "filter isWriteJson (whenSet flag e) = (if flag \<and> isWriteJson e then [e] else [])"
  by (auto simp: whenSet_def)

text \<open>A session on the assistant with a log selected and one turn taken.\<close>

definition selectedLog :: JsonlTracker where
  "selectedLog = \<lparr> startedAtMsEpoch = 0, overridePath = Some ''/tmp/log.jsonl'', cwd = None,
                   allowReadForSelection = False, projectsDirOverride = None,
                   activePath = Some ''/tmp/log.jsonl'',
                   activePathSha256 = Some (toyHash ''/tmp/log.jsonl''),
                   samples = [\<lparr> s_turnIndex = 1, s_tMs = 0, s_sizeBytes = 2048 \<rparr>] \<rparr>"

definition runningSession :: runtime where
  "runningSession =
     \<lparr> finalized = False,
       session = Some \<lparr> endedAtIso = None, jsonl = None,
                          s_turns = [\<lparr> index = 1, tMs = 0, source = Enter \<rparr>],
                          s_interactions = [], s_markers = [], warnings = [] \<rparr>,
       jsonlTracker = Some selectedLog,
       rt_tracker = Some (run testOpts [HandleInput 0 [CHR 0x0D] 1] init),
       monitor = True, markerWatcher = True, cleanupTty = True, onStdinData = True,
       onSigint = True, child = True, overlay = False \<rparr>"

definition renderOk :: "SessionData \<Rightarrow> jsError + string" where
  "renderOk sd = Inr ''<html></html>''"

definition claudeOptions :: RunSessionOptions where
  "claudeOptions =
     \<lparr> command = [''claude''], r_cwd = ''/w'', outputDir = None,
       r_jsonlPath = Some ''/tmp/log.jsonl'', r_burstIdleMs = 30, r_interactionTimeoutMs = 2000,
       sampleIntervalMs = 100, r_turnHotkey = AltT, durationMs = None, disableMcps = False,
       unsafeStorePaths = False, unsafeStoreCommand = False, unsafeStoreErrors = False \<rparr>"

text \<open>
  C2 does not hold of \<open>finalize\<close>: with a session, an external log selected and whatever
  options, \<open>finalize\<close> makes no call of the correlator, and the one document it writes
  has a \<open>jsonl\<close> entry with the hash of the path and the size samples but no correlation.
  (\<open>RunSessionOptions\<close> has no field for the request, which the command line passes as
  \<open>correlateJsonl\<close>.)
\<close>

theorem C2_finalize_without_correlation:
  assumes "\<not> finalized rt" and "session rt = Some sd" and "jsonlTracker rt = Some jt"
    and "activePath jt = Some path"
  shows "CorrelateJsonlToTurns \<notin> set (snd (finalizeSession render now opts rt))
         \<and> (\<exists>doc. filter isWriteJson (snd (finalizeSession render now opts rt)) = [WriteJson doc]
                \<and> jsonl doc = Some \<lparr> jt_activePathSha256 = activePathSha256 jt,
                                      jt_samples = samples jt, correlation = None \<rparr>)"
  using assms
  by (cases "render (foldl pushEmit sd
               (case rt_tracker rt of None \<Rightarrow> []
                | Some t \<Rightarrow> drop (length (emitted t)) (emitted (endSession t)))
             \<lparr> endedAtIso := Some now,
                jsonl := Some \<lparr> jt_activePathSha256 = activePathSha256 jt,
                                jt_samples = samples jt, correlation = None \<rparr> \<rparr>)")
     (simp_all add: finalizeSession_def Let_def)

theorem C2_finalize_without_correlation_witness:
  "CorrelateJsonlToTurns \<notin> set (snd (finalizeSession renderOk ''2026-01-01T00:00:01.000Z''
                                         claudeOptions runningSession))
   \<and> map (\<lambda>e. case e of WriteJson doc \<Rightarrow> map_option correlation (jsonl doc) | _ \<Rightarrow> None)
         (filter isWriteJson (snd (finalizeSession renderOk ''2026-01-01T00:00:01.000Z''
                                     claudeOptions runningSession)))
       = [Some None]"
proof -
  have h1: "\<not> finalized runningSession" by (simp add: runningSession_def)
  have h2: "session runningSession = Some \<lparr> endedAtIso = None, jsonl = None,
                          s_turns = [\<lparr> index = 1, tMs = 0, source = Enter \<rparr>],
                          s_interactions = [], s_markers = [], warnings = [] \<rparr>"
    by (simp add: runningSession_def)
  have h3: "jsonlTracker runningSession = Some selectedLog" by (simp add: runningSession_def)
  have h4: "activePath selectedLog = Some ''/tmp/log.jsonl''" by (simp add: selectedLog_def)
  from C2_finalize_without_correlation [OF h1 h2 h3 h4, of renderOk "''2026-01-01T00:00:01.000Z''"
         claudeOptions]
  show ?thesis by auto
qed

end
